theory Spec2Isabelle
  imports Main
begin

section \<open>The buffering adapters of bio.go\<close>

text \<open>
  A shallow embedding of \<^verbatim>\<open>src/bio.go\<close>: the write adapter (\<^verbatim>\<open>writeBio\<close>), the
  read adapter (\<^verbatim>\<open>readBio\<close>) and the raw stream facade (\<^verbatim>\<open>anyBio\<close>).

  The model is sequential: the two mutexes of an adapter are not modelled, every function
  below is one uninterrupted run of the Go function of the same name. A Go byte slice is a
  list of bytes; where the source depends on the capacity of the slice (the read adapter)
  the capacity is a field of its own. Go's \<^verbatim>\<open>int\<close> is unbounded here (a list length);
  the conversions to the C types \<^verbatim>\<open>C.int\<close> and \<^verbatim>\<open>C.long\<close> wrap around as Go's
  integer conversions do.
\<close>

subsection \<open>Bytes, errors, faults, C integers\<close>

type_synonym byte = char

text \<open>\<^verbatim>\<open>io.EOF\<close>, the error of \<^verbatim>\<open>anyBio.Write\<close>, and any error a connection reports.\<close>

datatype error = EOF | BIO_write_failed | ConnError string

text \<open>A panic of Go. The only one the code of bio.go raises by itself is a slice
  expression out of range; \<open>PanicValue v\<close> is a panic with the value \<open>v\<close> raised by
  code that bio.go calls.\<close>

datatype panic = SliceBoundsOutOfRange | PanicValue string

text \<open>\<^verbatim>\<open>C.int(x)\<close>: conversion to a signed 32-bit integer, which wraps around.\<close>

definition C_int :: "int \<Rightarrow> int" where
  "C_int i = (i + 2147483648) mod 4294967296 - 2147483648"

text \<open>\<^verbatim>\<open>C.long(x)\<close>: conversion to a signed 64-bit integer (the width of \<^verbatim>\<open>long\<close> on
  the LP64 platforms).\<close>

definition C_long :: "int \<Rightarrow> int" where
  "C_long i = (i + 9223372036854775808) mod 18446744073709551616 - 9223372036854775808"

text \<open>The built-in \<^verbatim>\<open>copy(dst, src)\<close>: copies \<open>min (len dst) (len src)\<close> elements to the
  front of \<open>dst\<close> and returns that number. The source slice is read before anything is
  written (Go copies overlapping slices correctly). The result is the new contents of
  \<open>dst\<close> and the count.\<close>

definition go_copy :: "'a list \<Rightarrow> 'a list \<Rightarrow> 'a list \<times> nat" where
  "go_copy dst src =
     (let k = min (length dst) (length src) in (take k src @ drop k dst, k))"

text \<open>\<^verbatim>\<open>nonCopyGoBytes(ptr, length)\<close> makes a slice of \<open>length\<close> bytes over the memory at
  \<open>ptr\<close>; \<^verbatim>\<open>nonCopyCString\<close> is the same for a C pointer. The memory at the pointer is
  the list \<open>mem\<close>; the caller owes \<open>length \<le> len mem\<close>.\<close>

definition nonCopyGoBytes :: "byte list \<Rightarrow> int \<Rightarrow> byte list" where
  "nonCopyGoBytes mem len = take (nat len) mem"

definition nonCopyCString :: "byte list \<Rightarrow> int \<Rightarrow> byte list" where
  "nonCopyCString mem sz = nonCopyGoBytes mem sz"

subsection \<open>The foreign I/O object and its retry flags\<close>

text \<open>Modelled from the spec: the flag word of the engine's I/O object and the shim
  functions \<^verbatim>\<open>X_BIO_set_flags\<close> and \<^verbatim>\<open>X_BIO_clear_flags\<close> (shim.c and the engine's
  headers are not under src/). The spec speaks of a retry-flag pair that is cleared at the
  start of every call and set only to signal retry. A flag word is the set of the flags that
  are set in it; \<open>f1 | f2\<close> is the union; \<^verbatim>\<open>BIO_FLAGS_RWS\<close> is the read, write and
  io-special flags together.\<close>

datatype bio_flag =
  BIO_FLAGS_READ | BIO_FLAGS_WRITE | BIO_FLAGS_IO_SPECIAL | BIO_FLAGS_SHOULD_RETRY

type_synonym BIO = "bio_flag set"

definition BIO_FLAGS_RWS :: "bio_flag set" where
  "BIO_FLAGS_RWS = {BIO_FLAGS_READ, BIO_FLAGS_WRITE, BIO_FLAGS_IO_SPECIAL}"

definition X_BIO_clear_flags :: "BIO \<Rightarrow> bio_flag set \<Rightarrow> BIO" where
  "X_BIO_clear_flags b flags = b - flags"

definition X_BIO_set_flags :: "BIO \<Rightarrow> bio_flag set \<Rightarrow> BIO" where
  "X_BIO_set_flags b flags = b \<union> flags"

definition bioClearRetryFlags :: "BIO \<Rightarrow> BIO" where
  "bioClearRetryFlags b = X_BIO_clear_flags b (BIO_FLAGS_RWS \<union> {BIO_FLAGS_SHOULD_RETRY})"

definition bioSetRetryRead :: "BIO \<Rightarrow> BIO" where
  "bioSetRetryRead b = X_BIO_set_flags b ({BIO_FLAGS_READ} \<union> {BIO_FLAGS_SHOULD_RETRY})"

text \<open>The commands of the ctrl callbacks that bio.go tells apart; every other command is
  \<open>BIO_CTRL_other\<close> with its number.\<close>

datatype bio_ctrl =
  BIO_CTRL_PENDING | BIO_CTRL_WPENDING | BIO_CTRL_FLUSH | BIO_CTRL_DUP | BIO_CTRL_other int

subsection \<open>The connection\<close>

text \<open>
  \<^verbatim>\<open>net.Conn\<close> is an interface of Go's library: the environment of the adapters. A
  connection is modelled by what its calls answer and a log of the calls made:
  \<^item> \<open>on_write k data\<close> is what the \<open>k\<close>-th call of \<^verbatim>\<open>Write(data)\<close> returns: the count
    \<open>n\<close> and the error;
  \<^item> \<open>written\<close> lists, for every \<^verbatim>\<open>Write\<close> call so far, the bytes the connection took
    (the first \<open>n\<close> of the data);
  \<^item> \<open>on_read k m\<close> is what the \<open>k\<close>-th call of \<^verbatim>\<open>Read(dst)\<close> with \<open>len(dst) = m\<close>
    does: the bytes it stores at the front of \<open>dst\<close> (their number is the \<open>n\<close> it
    returns) and the error;
  \<^item> \<open>reads\<close> lists, for every \<^verbatim>\<open>Read\<close> call so far, \<open>len(dst)\<close> and the bytes stored.
\<close>

record conn =
  on_write :: "nat \<Rightarrow> byte list \<Rightarrow> int \<times> error option"
  written :: "byte list list"
  on_read :: "nat \<Rightarrow> nat \<Rightarrow> byte list \<times> error option"
  reads :: "(nat \<times> byte list) list"

definition conn_Write :: "conn \<Rightarrow> byte list \<Rightarrow> (int \<times> error option) \<times> conn" where
  "conn_Write c data =
     (let (n, err) = on_write c (length (written c)) data
      in ((n, err), c\<lparr>written := written c @ [take (nat n) data]\<rparr>))"

definition conn_Read :: "conn \<Rightarrow> nat \<Rightarrow> (byte list \<times> error option) \<times> conn" where
  "conn_Read c m =
     (let (chunk, err) = on_read c (length (reads c)) m
      in ((chunk, err), c\<lparr>reads := reads c @ [(m, chunk)]\<rparr>))"

text \<open>All bytes the connection has taken, in order; all bytes it has delivered, in order.\<close>

definition wire :: "conn \<Rightarrow> byte list" where
  "wire c = concat (written c)"

definition delivered :: "conn \<Rightarrow> byte list" where
  "delivered c = concat (map snd (reads c))"

subsection \<open>The write adapter\<close>

record writeBio =
  wb_buf :: "byte list"
  wb_release_buffers :: bool
  wb_conn :: conn

text \<open>
  \<^verbatim>\<open>go_write_bio_write(b, data, size)\<close>. The adapter \<open>ptr\<close> is what \<^verbatim>\<open>loadWritePtr(b)\<close>
  found in the handle registry (\<open>None\<close> is \<^verbatim>\<open>nil\<close>); the registry itself is not under
  src/. \<open>data\<close> is the memory at the C pointer (\<open>None\<close> is the null pointer). The result
  is the return code (or the panic), the adapter and the I/O object after the call.
\<close>

definition go_write_bio_write_body ::
  "writeBio option \<Rightarrow> BIO \<Rightarrow> byte list option \<Rightarrow> int \<Rightarrow> (panic + int) \<times> writeBio option \<times> BIO"
where
  "go_write_bio_write_body ptr b data sz =
     (if ptr = None \<or> data = None \<or> sz < 0 then (Inr (- 1), ptr, b)
      else
        let wb = the ptr;
            b1 = bioClearRetryFlags b;
            wb1 = wb\<lparr>wb_buf := wb_buf wb @ nonCopyCString (the data) sz\<rparr>
        in (Inr sz, Some wb1, b1))"

text \<open>The deferred function of every exported callback: a panic that reaches it is
  recovered and the return code becomes \<open>-1\<close>.\<close>

definition recover_rc :: "panic + int \<Rightarrow> int" where
  "recover_rc r = (case r of Inl p \<Rightarrow> - 1 | Inr rc \<Rightarrow> rc)"

definition go_write_bio_write ::
  "writeBio option \<Rightarrow> BIO \<Rightarrow> byte list option \<Rightarrow> int \<Rightarrow> int \<times> writeBio option \<times> BIO"
where
  "go_write_bio_write ptr b data sz =
     (case go_write_bio_write_body ptr b data sz of (r, ptr1, b1) \<Rightarrow> (recover_rc r, ptr1, b1))"

definition writeBioPending :: "writeBio option \<Rightarrow> int" where
  "writeBioPending ptr =
     (if ptr = None then 0 else C_long (int (length (wb_buf (the ptr)))))"

text \<open>
  \<^verbatim>\<open>WriteToConn\<close>: one \<^verbatim>\<open>Write\<close> of the whole buffer, then the buffer is compacted by
  \<^verbatim>\<open>wb.buf = wb.buf[:copy(wb.buf, wb.buf[n:])]\<close>. The slice expression \<^verbatim>\<open>wb.buf[n:]\<close>
  panics when \<open>n\<close> is negative or beyond the length; the buffer is then as it was.
\<close>

definition WriteToConn :: "writeBio \<Rightarrow> (panic + int \<times> error option) \<times> writeBio" where
  "WriteToConn wb =
     (let data = wb_buf wb in
      if length data = 0 then (Inr (0, None), wb)
      else
        case conn_Write (wb_conn wb) data of ((n, err), c) \<Rightarrow>
          let wb1 = wb\<lparr>wb_conn := c\<rparr> in
          if n < 0 \<or> int (length (wb_buf wb1)) < n then (Inl SliceBoundsOutOfRange, wb1)
          else
            case go_copy (wb_buf wb1) (drop (nat n) (wb_buf wb1)) of (dst, k) \<Rightarrow>
              let wb2 = wb1\<lparr>wb_buf := take k dst\<rparr>;
                  wb3 = (if wb_release_buffers wb2 \<and> length (wb_buf wb2) = 0
                         then wb2\<lparr>wb_buf := []\<rparr> else wb2)
              in (Inr (n, err), wb3))"

definition writeBioFlush :: "writeBio option \<Rightarrow> (panic + int) \<times> writeBio option" where
  "writeBioFlush ptr =
     (if ptr = None then (Inr 0, ptr)
      else
        case WriteToConn (the ptr) of
          (Inl p, wb1) \<Rightarrow> (Inl p, Some wb1)
        | (Inr (n, err), wb1) \<Rightarrow>
            if err \<noteq> None then (Inr 0, Some wb1) else (Inr (C_long n), Some wb1))"

text \<open>\<^verbatim>\<open>go_write_bio_ctrl(b, cmd, arg1, arg2)\<close>; the source ignores \<open>arg1\<close> and \<open>arg2\<close>.\<close>

definition go_write_bio_ctrl_body ::
  "writeBio option \<Rightarrow> bio_ctrl \<Rightarrow> (panic + int) \<times> writeBio option"
where
  "go_write_bio_ctrl_body ptr cmd =
     (case cmd of
        BIO_CTRL_WPENDING \<Rightarrow> (Inr (writeBioPending ptr), ptr)
      | BIO_CTRL_FLUSH \<Rightarrow> writeBioFlush ptr
      | BIO_CTRL_DUP \<Rightarrow> (Inr 1, ptr)
      | _ \<Rightarrow> (Inr 0, ptr))"

definition go_write_bio_ctrl :: "writeBio option \<Rightarrow> bio_ctrl \<Rightarrow> int \<times> writeBio option" where
  "go_write_bio_ctrl ptr cmd =
     (case go_write_bio_ctrl_body ptr cmd of (r, ptr1) \<Rightarrow> (recover_rc r, ptr1))"

subsection \<open>The read adapter\<close>

text \<open>\<open>rb_cap\<close> is \<^verbatim>\<open>cap(rb.buf)\<close>: the source grows the capacity by hand and reads into
  the region between the length and the capacity.\<close>

record readBio =
  rb_buf :: "byte list"
  rb_cap :: nat
  rb_eof :: bool
  rb_release_buffers :: bool
  rb_conn :: conn

definition SSLRecordSize :: nat where
  "SSLRecordSize = 16 * 1024"

text \<open>
  \<^verbatim>\<open>go_read_bio_read(b, data, size)\<close>. \<open>ptr\<close> is what \<^verbatim>\<open>loadReadPtr(b)\<close> found, \<open>data\<close>
  the memory at the destination pointer. The result is the return code (or the panic), the
  adapter, the I/O object and the destination memory after the call: the slice
  \<^verbatim>\<open>nonCopyCString(data, size)\<close> covers the first \<open>size\<close> bytes of that memory.
\<close>

definition go_read_bio_read_body ::
  "readBio option \<Rightarrow> BIO \<Rightarrow> byte list option \<Rightarrow> int
     \<Rightarrow> (panic + int) \<times> readBio option \<times> BIO \<times> byte list option"
where
  "go_read_bio_read_body ptr b data sz =
     (if ptr = None \<or> sz < 0 then (Inr (- 1), ptr, b, data)
      else
        let rb = the ptr;
            b1 = bioClearRetryFlags b
        in
        if length (rb_buf rb) = 0 then
          (if rb_eof rb then (Inr 0, ptr, b1, data)
           else (Inr (- 1), ptr, bioSetRetryRead b1, data))
        else if sz = 0 \<or> data = None then
          (Inr (C_int (int (length (rb_buf rb)))), ptr, b1, data)
        else
          case go_copy (nonCopyCString (the data) sz) (rb_buf rb) of (dst, n) \<Rightarrow>
          case go_copy (rb_buf rb) (drop n (rb_buf rb)) of (moved, k) \<Rightarrow>
            let rb1 = rb\<lparr>rb_buf := take k moved\<rparr>;
                rb2 = (if rb_release_buffers rb1 \<and> length (rb_buf rb1) = 0
                       then rb1\<lparr>rb_buf := [], rb_cap := 0\<rparr> else rb1)
            in (Inr (C_int (int n)), Some rb2, b1, Some (dst @ drop (nat sz) (the data))))"

definition go_read_bio_read ::
  "readBio option \<Rightarrow> BIO \<Rightarrow> byte list option \<Rightarrow> int
     \<Rightarrow> int \<times> readBio option \<times> BIO \<times> byte list option"
where
  "go_read_bio_read ptr b data sz =
     (case go_read_bio_read_body ptr b data sz of
        (r, ptr1, b1, data1) \<Rightarrow> (recover_rc r, ptr1, b1, data1))"

definition readBioPending :: "readBio option \<Rightarrow> int" where
  "readBioPending ptr =
     (if ptr = None then 0 else C_long (int (length (rb_buf (the ptr)))))"

text \<open>\<^verbatim>\<open>go_read_bio_ctrl(b, cmd, arg1, arg2)\<close>; it changes nothing, and the source ignores
  \<open>arg1\<close> and \<open>arg2\<close>.\<close>

definition go_read_bio_ctrl_body :: "readBio option \<Rightarrow> bio_ctrl \<Rightarrow> panic + int" where
  "go_read_bio_ctrl_body ptr cmd =
     (case cmd of
        BIO_CTRL_PENDING \<Rightarrow> Inr (readBioPending ptr)
      | BIO_CTRL_DUP \<Rightarrow> Inr 1
      | BIO_CTRL_FLUSH \<Rightarrow> Inr 1
      | _ \<Rightarrow> Inr 0)"

definition go_read_bio_ctrl :: "readBio option \<Rightarrow> bio_ctrl \<Rightarrow> int" where
  "go_read_bio_ctrl ptr cmd = recover_rc (go_read_bio_ctrl_body ptr cmd)"

text \<open>
  \<^verbatim>\<open>ReadFromConnOnce\<close>. First the capacity is raised to \<open>len + SSLRecordSize\<close> when it is
  below that (a new array of that capacity, the old contents copied into it); then one
  \<^verbatim>\<open>Read\<close> into \<open>dst = rb.buf[len:cap]\<close>; then, when \<open>n > 0\<close>, the buffer is extended
  by \<^verbatim>\<open>rb.buf = rb.buf[:len(rb.buf)+n]\<close>. That slice expression, and the one of the
  branch before it, panic when \<open>len + n\<close> is beyond the capacity (a \<^verbatim>\<open>Read\<close> that
  reports more than \<open>len(dst)\<close>). The bytes the extension uncovers are the first \<open>n\<close>
  bytes of \<open>dst\<close>: they lie where the buffer ends, or, when the buffer has been shortened
  since \<open>dst\<close> was taken (\<^verbatim>\<open>len(dst_slice) != len(rb.buf)\<close>), the branch copies them
  there. In a sequential run \<open>dst_slice\<close> and \<open>rb.buf\<close> are the same slice and the
  branch is not taken; another thread can shorten the buffer only while the \<^verbatim>\<open>Read\<close>
  is under way.
\<close>

definition ReadFromConnOnce :: "readBio \<Rightarrow> (panic + int \<times> error option) \<times> readBio" where
  "ReadFromConnOnce rb =
     (let rb1 = (if rb_cap rb < length (rb_buf rb) + SSLRecordSize
                 then
                   let new_buf = replicate (length (rb_buf rb)) (CHR 0x00)
                   in rb\<lparr>rb_buf := fst (go_copy new_buf (rb_buf rb)),
                         rb_cap := length (rb_buf rb) + SSLRecordSize\<rparr>
                 else rb);
          dst_len = rb_cap rb1 - length (rb_buf rb1);
          dst_slice = rb_buf rb1
      in
      case conn_Read (rb_conn rb1) dst_len of ((chunk, err), c) \<Rightarrow>
        let dst = fst (go_copy (replicate dst_len (CHR 0x00)) chunk);
            n = int (length chunk);
            rb2 = rb1\<lparr>rb_conn := c\<rparr>
        in
        if 0 < n then
          (if int (rb_cap rb2) < int (length (rb_buf rb2)) + n
           then (Inl SliceBoundsOutOfRange, rb2)
           else
             let stored = (if length dst_slice \<noteq> length (rb_buf rb2)
                           then fst (go_copy (replicate (nat n) (CHR 0x00)) dst)
                           else take (nat n) dst)
             in (Inr (n, err), rb2\<lparr>rb_buf := rb_buf rb2 @ stored\<rparr>))
        else (Inr (n, err), rb2))"

definition MarkEOF :: "readBio \<Rightarrow> readBio" where
  "MarkEOF rb = rb\<lparr>rb_eof := True\<rparr>"

subsection \<open>The raw stream facade\<close>

text \<open>
  \<^verbatim>\<open>anyBio.Read\<close> and \<^verbatim>\<open>anyBio.Write\<close>. The foreign calls \<^verbatim>\<open>X_BIO_read\<close> and
  \<^verbatim>\<open>X_BIO_write\<close> belong to the engine: \<open>x_bio_read len\<close> and \<open>x_bio_write len\<close> are
  the codes they return when called with a buffer of \<open>len\<close> bytes. The result is the pair
  the Go method returns.
\<close>

definition anyBio_Read :: "(int \<Rightarrow> int) \<Rightarrow> byte list \<Rightarrow> int \<times> error option" where
  "anyBio_Read x_bio_read buf =
     (if length buf = 0 then (0, None)
      else
        let n = x_bio_read (C_int (int (length buf)))
        in if n \<le> 0 then (0, Some EOF) else (n, None))"

definition anyBio_Write :: "(int \<Rightarrow> int) \<Rightarrow> byte list \<Rightarrow> int \<times> error option" where
  "anyBio_Write x_bio_write buf =
     (if length buf = 0 then (0, None)
      else
        let n = x_bio_write (C_int (int (length buf)))
        in if n \<noteq> int (length buf) then (n, Some BIO_write_failed) else (n, None))"

subsection \<open>The callbacks with the registry lookup\<close>

text \<open>
  Every callback starts from the I/O object alone: \<^verbatim>\<open>loadWritePtr(b)\<close> and
  \<^verbatim>\<open>loadReadPtr(b)\<close> ask the handle registry for the adapter. The code of the registry
  (mapping.go) is not under src/, so the outcome of its call is a parameter: \<open>fault\<close> is
  the panic the call raises, when it raises one, and \<open>reg\<close> is the adapter registered for
  the I/O object, which the call returns otherwise. The functions \<open>go_write_bio_write\<close>,
  \<open>go_read_bio_read\<close>, \<open>go_write_bio_ctrl\<close> and \<open>go_read_bio_ctrl\<close> above are the
  callbacks for a lookup that returns. The functions below are the callbacks as the engine
  calls them: the lookup is made inside the callback, under its deferred recover. The ctrl
  callbacks look the adapter up only for the commands that need it (\<^verbatim>\<open>writeBioPending\<close>,
  \<^verbatim>\<open>writeBioFlush\<close> and \<^verbatim>\<open>readBioPending\<close> make the lookup).
\<close>

definition loadWritePtr :: "panic option \<Rightarrow> writeBio option \<Rightarrow> panic + writeBio option" where
  "loadWritePtr fault reg = (case fault of Some p \<Rightarrow> Inl p | None \<Rightarrow> Inr reg)"

definition loadReadPtr :: "panic option \<Rightarrow> readBio option \<Rightarrow> panic + readBio option" where
  "loadReadPtr fault reg = (case fault of Some p \<Rightarrow> Inl p | None \<Rightarrow> Inr reg)"

definition go_write_bio_write_call ::
  "panic option \<Rightarrow> writeBio option \<Rightarrow> BIO \<Rightarrow> byte list option \<Rightarrow> int
     \<Rightarrow> int \<times> writeBio option \<times> BIO"
where
  "go_write_bio_write_call fault reg b data sz =
     (case (case loadWritePtr fault reg of
              Inl p \<Rightarrow> (Inl p, reg, b)
            | Inr ptr \<Rightarrow> go_write_bio_write_body ptr b data sz) of
        (r, ptr1, b1) \<Rightarrow> (recover_rc r, ptr1, b1))"

definition go_read_bio_read_call ::
  "panic option \<Rightarrow> readBio option \<Rightarrow> BIO \<Rightarrow> byte list option \<Rightarrow> int
     \<Rightarrow> int \<times> readBio option \<times> BIO \<times> byte list option"
where
  "go_read_bio_read_call fault reg b data sz =
     (case (case loadReadPtr fault reg of
              Inl p \<Rightarrow> (Inl p, reg, b, data)
            | Inr ptr \<Rightarrow> go_read_bio_read_body ptr b data sz) of
        (r, ptr1, b1, data1) \<Rightarrow> (recover_rc r, ptr1, b1, data1))"

definition go_write_bio_ctrl_call ::
  "panic option \<Rightarrow> writeBio option \<Rightarrow> bio_ctrl \<Rightarrow> int \<times> writeBio option"
where
  "go_write_bio_ctrl_call fault reg cmd =
     (case (if cmd = BIO_CTRL_WPENDING \<or> cmd = BIO_CTRL_FLUSH
            then (case loadWritePtr fault reg of
                    Inl p \<Rightarrow> (Inl p, reg)
                  | Inr ptr \<Rightarrow> go_write_bio_ctrl_body ptr cmd)
            else go_write_bio_ctrl_body reg cmd) of
        (r, ptr1) \<Rightarrow> (recover_rc r, ptr1))"

definition go_read_bio_ctrl_call :: "panic option \<Rightarrow> readBio option \<Rightarrow> bio_ctrl \<Rightarrow> int" where
  "go_read_bio_ctrl_call fault reg cmd =
     recover_rc
       (if cmd = BIO_CTRL_PENDING
        then (case loadReadPtr fault reg of
                Inl p \<Rightarrow> Inl p
              | Inr ptr \<Rightarrow> go_read_bio_ctrl_body ptr cmd)
        else go_read_bio_ctrl_body reg cmd)"

subsection \<open>Runs of calls\<close>

text \<open>
  A run of the write adapter: \<open>Append bs\<close> is the engine's call
  \<^verbatim>\<open>go_write_bio_write\<close> with a pointer to the bytes \<open>bs\<close> and their number; \<open>Flush\<close> is
  the owner's call of \<^verbatim>\<open>WriteToConn\<close>. A panic of \<^verbatim>\<open>WriteToConn\<close> ends the run.
\<close>

datatype wop = Append "byte list" | Flush

fun appended :: "wop list \<Rightarrow> byte list" where
  "appended [] = []"
| "appended (Append bs # ops) = bs @ appended ops"
| "appended (Flush # ops) = appended ops"

fun run_wops :: "wop list \<Rightarrow> writeBio \<times> BIO \<Rightarrow> panic + writeBio \<times> BIO" where
  "run_wops [] s = Inr s"
| "run_wops (Append bs # ops) (wb, b) =
     (case go_write_bio_write (Some wb) b (Some bs) (int (length bs)) of
        (rc, ptr1, b1) \<Rightarrow> run_wops ops (case ptr1 of None \<Rightarrow> wb | Some wb1 \<Rightarrow> wb1, b1))"
| "run_wops (Flush # ops) (wb, b) =
     (case WriteToConn wb of
        (Inl p, wb1) \<Rightarrow> Inl p
      | (Inr r, wb1) \<Rightarrow> run_wops ops (wb1, b))"

text \<open>\<open>flush_trace k wb\<close>: \<open>k\<close> calls of \<^verbatim>\<open>WriteToConn\<close> in a row; for each, the number
  of bytes it reports written and what \<^verbatim>\<open>writeBioPending\<close> answers after it.\<close>

fun flush_trace :: "nat \<Rightarrow> writeBio \<Rightarrow> (int \<times> int) list" where
  "flush_trace 0 wb = []"
| "flush_trace (Suc k) wb =
     (case WriteToConn wb of
        (Inl p, wb1) \<Rightarrow> []
      | (Inr (n, err), wb1) \<Rightarrow> (n, writeBioPending (Some wb1)) # flush_trace k wb1)"

text \<open>
  A run of the read adapter: \<open>Deliver\<close> is the owner's call of \<^verbatim>\<open>ReadFromConnOnce\<close>;
  \<open>Drain m\<close> is the engine's call \<^verbatim>\<open>go_read_bio_read\<close> with a destination of \<open>m\<close>
  bytes. The third component collects what the engine has received: after a call that
  returns \<open>rc > 0\<close>, the first \<open>rc\<close> bytes of the destination.
\<close>

datatype rop = Deliver | Drain nat

fun run_rops ::
  "rop list \<Rightarrow> readBio \<times> BIO \<times> byte list \<Rightarrow> panic + readBio \<times> BIO \<times> byte list"
where
  "run_rops [] s = Inr s"
| "run_rops (Deliver # ops) (rb, b, out) =
     (case ReadFromConnOnce rb of
        (Inl p, rb1) \<Rightarrow> Inl p
      | (Inr r, rb1) \<Rightarrow> run_rops ops (rb1, b, out))"
| "run_rops (Drain m # ops) (rb, b, out) =
     (case go_read_bio_read (Some rb) b (Some (replicate m (CHR 0x00))) (int m) of
        (rc, ptr1, b1, data1) \<Rightarrow>
          run_rops ops
            (case ptr1 of None \<Rightarrow> rb | Some rb1 \<Rightarrow> rb1,
             b1,
             out @ (if 0 < rc then take (nat rc) (case data1 of None \<Rightarrow> [] | Some mem \<Rightarrow> mem)
                    else [])))"

text \<open>The return codes of successive read requests, the \<open>i\<close>-th with a fresh destination
  of \<open>ms ! i\<close> bytes.\<close>

fun read_requests :: "nat list \<Rightarrow> readBio \<times> BIO \<Rightarrow> int list" where
  "read_requests [] s = []"
| "read_requests (m # ms) (rb, b) =
     (case go_read_bio_read (Some rb) b (Some (replicate m (CHR 0x00))) (int m) of
        (rc, ptr1, b1, data1) \<Rightarrow>
          rc # read_requests ms (case ptr1 of None \<Rightarrow> rb | Some rb1 \<Rightarrow> rb1, b1))"

text \<open>Every operation of the read adapter, with any arguments, and the values of
  \<open>eof\<close> after each call of a run. A panic of \<^verbatim>\<open>ReadFromConnOnce\<close> goes to its Go
  caller; the adapter is then as the model leaves it.\<close>

datatype rb_call =
  Call_read "byte list option" int
| Call_ctrl bio_ctrl
| Call_ReadFromConnOnce
| Call_MarkEOF

fun rb_step :: "rb_call \<Rightarrow> readBio \<times> BIO \<Rightarrow> readBio \<times> BIO" where
  "rb_step (Call_read data sz) (rb, b) =
     (case go_read_bio_read (Some rb) b data sz of
        (rc, ptr1, b1, data1) \<Rightarrow> (case ptr1 of None \<Rightarrow> rb | Some rb1 \<Rightarrow> rb1, b1))"
| "rb_step (Call_ctrl cmd) (rb, b) =
     (case go_read_bio_ctrl (Some rb) cmd of rc \<Rightarrow> (rb, b))"
| "rb_step Call_ReadFromConnOnce (rb, b) = (snd (ReadFromConnOnce rb), b)"
| "rb_step Call_MarkEOF (rb, b) = (MarkEOF rb, b)"

fun eof_trace :: "rb_call list \<Rightarrow> readBio \<times> BIO \<Rightarrow> bool list" where
  "eof_trace [] s = []"
| "eof_trace (c # cs) s = rb_eof (fst (rb_step c s)) # eof_trace cs (rb_step c s)"

subsection \<open>Concrete connections and adapters\<close>

text \<open>A connection that takes at most \<open>k\<close> bytes per \<^verbatim>\<open>Write\<close> and delivers the chunks
  \<open>chunks\<close>, one per \<^verbatim>\<open>Read\<close> (cut to the room in \<open>dst\<close>), then \<^verbatim>\<open>io.EOF\<close>.\<close>

definition test_conn :: "nat \<Rightarrow> byte list list \<Rightarrow> conn" where
  "test_conn k chunks =
     \<lparr>on_write = (\<lambda>i data. (min (int k) (int (length data)), None)),
      written = [],
      on_read = (\<lambda>i m. if i < length chunks then (take m (chunks ! i), None)
                        else ([], Some EOF)),
      reads = []\<rparr>"

text \<open>A connection whose \<^verbatim>\<open>Write\<close> reports more bytes than it was given.\<close>

definition overreporting_conn :: conn where
  "overreporting_conn =
     \<lparr>on_write = (\<lambda>i data. (int (length data) + 1, None)),
      written = [],
      on_read = (\<lambda>i m. ([], Some EOF)),
      reads = []\<rparr>"

text \<open>\<^verbatim>\<open>&writeBio{conn: c}\<close> and \<^verbatim>\<open>&readBio{conn: c}\<close>, with the release hint given.\<close>

definition new_writeBio :: "bool \<Rightarrow> conn \<Rightarrow> writeBio" where
  "new_writeBio r c = \<lparr>wb_buf = [], wb_release_buffers = r, wb_conn = c\<rparr>"

definition new_readBio :: "bool \<Rightarrow> conn \<Rightarrow> readBio" where
  "new_readBio r c =
     \<lparr>rb_buf = [], rb_cap = 0, rb_eof = False, rb_release_buffers = r, rb_conn = c\<rparr>"

text \<open>The messages of the repository's test: \<^verbatim>\<open>"server test message\n"\<close> and
  \<^verbatim>\<open>"client test message\n"\<close>, each ending in a newline.\<close>

definition serverMsg :: "byte list" where
  "serverMsg = ''server test message'' @ [CHR 0x0A]"

definition clientMsg :: "byte list" where
  "clientMsg = ''client test message'' @ [CHR 0x0A]"

section \<open>Properties\<close>

subsection \<open>Helper facts: C integers, copying, flags\<close>

lemma C_int_id: "0 \<le> i \<Longrightarrow> i < 2147483648 \<Longrightarrow> C_int i = i"
  by (simp add: C_int_def)

lemma C_long_id: "0 \<le> i \<Longrightarrow> i < 9223372036854775808 \<Longrightarrow> C_long i = i"
  by (simp add: C_long_def)

lemma drop_take_rest:
  "n \<le> s \<Longrightarrow> s \<le> length xs \<Longrightarrow> drop n (take s xs) @ drop s xs = drop n xs"
proof -
  assume a: "n \<le> s" "s \<le> length xs"
  have "drop n xs = drop n (take s xs @ drop s xs)" by simp
  also have "\<dots> = drop n (take s xs) @ drop s xs" using a by (simp del: append_take_drop_id)
  finally show ?thesis by simp
qed

lemma go_copy_compact:
  "go_copy xs (drop n xs) = (dst, k) \<Longrightarrow> take k dst = drop n xs \<and> k = length xs - n"
  by (auto simp: go_copy_def Let_def min_def)

lemma retry_flags:
  "BIO_FLAGS_SHOULD_RETRY \<notin> bioClearRetryFlags b"
  "BIO_FLAGS_READ \<in> bioSetRetryRead b'"
  "BIO_FLAGS_SHOULD_RETRY \<in> bioSetRetryRead b'"
  by (simp_all add: bioClearRetryFlags_def bioSetRetryRead_def X_BIO_clear_flags_def
      X_BIO_set_flags_def)

subsection \<open>Helper facts: the write adapter\<close>

lemma go_write_bio_write_eq:
  "go_write_bio_write ptr b data sz =
     (if ptr = None \<or> data = None \<or> sz < 0 then (- 1, ptr, b)
      else (sz, Some ((the ptr)\<lparr>wb_buf := wb_buf (the ptr) @ take (nat sz) (the data)\<rparr>),
            bioClearRetryFlags b))"
  by (simp add: go_write_bio_write_def go_write_bio_write_body_def recover_rc_def Let_def
      nonCopyCString_def nonCopyGoBytes_def)

text \<open>A \<^verbatim>\<open>Write\<close> that keeps the contract of \<^verbatim>\<open>io.Writer\<close> (\<open>0 \<le> n \<le> len(data)\<close>):
  the first \<open>n\<close> bytes of the buffer go to the connection, the rest stays.\<close>

lemma WriteToConn_ok:
  assumes "wb_buf wb \<noteq> []"
    and "on_write (wb_conn wb) (length (written (wb_conn wb))) (wb_buf wb) = (n, err)"
    and "0 \<le> n" and "n \<le> int (length (wb_buf wb))"
  shows "WriteToConn wb =
           (Inr (n, err),
            wb\<lparr>wb_buf := drop (nat n) (wb_buf wb),
               wb_conn := (wb_conn wb)\<lparr>written :=
                 written (wb_conn wb) @ [take (nat n) (wb_buf wb)]\<rparr>\<rparr>)"
  using assms
  by (auto simp: WriteToConn_def conn_Write_def Let_def go_copy_def min_def split: prod.splits)

lemma WriteToConn_empty: "wb_buf wb = [] \<Longrightarrow> WriteToConn wb = (Inr (0, None), wb)"
  by (simp add: WriteToConn_def)

lemma run_wops_append:
  "run_wops (xs @ ys) s =
     (case run_wops xs s of Inl p \<Rightarrow> Inl p | Inr s1 \<Rightarrow> run_wops ys s1)"
proof (induction xs arbitrary: s)
  case Nil
  then show ?case by simp
next
  case (Cons op xs)
  obtain wb b where s: "s = (wb, b)" by (cases s)
  show ?case
  proof (cases op)
    case (Append bs)
    then show ?thesis using Cons.IH s by (simp split: prod.splits)
  next
    case Flush
    then show ?thesis using Cons.IH s by (simp split: prod.splits sum.splits)
  qed
qed

lemma run_wops_sent:
  assumes "\<And>k d. 0 \<le> fst (on_write (wb_conn wb) k d) \<and>
                  fst (on_write (wb_conn wb) k d) \<le> int (length d)"
  shows "\<exists>wb' b' sent. run_wops ops (wb, b) = Inr (wb', b') \<and>
           on_write (wb_conn wb') = on_write (wb_conn wb) \<and>
           wire (wb_conn wb') = wire (wb_conn wb) @ sent \<and>
           sent @ wb_buf wb' = wb_buf wb @ appended ops"
  using assms
proof (induction ops arbitrary: wb b)
  case Nil
  then show ?case by simp
next
  case (Cons op ops)
  show ?case
  proof (cases op)
    case (Append bs)
    let ?wb1 = "wb\<lparr>wb_buf := wb_buf wb @ bs\<rparr>"
    have step: "go_write_bio_write (Some wb) b (Some bs) (int (length bs)) =
                  (int (length bs), Some ?wb1, bioClearRetryFlags b)"
      by (simp add: go_write_bio_write_eq)
    have "\<And>k d. 0 \<le> fst (on_write (wb_conn ?wb1) k d) \<and>
                 fst (on_write (wb_conn ?wb1) k d) \<le> int (length d)"
      using Cons.prems by simp
    from Cons.IH [OF this, of "bioClearRetryFlags b"] show ?thesis
      using Append step by auto
  next
    case Flush
    show ?thesis
    proof (cases "wb_buf wb = []")
      case True
      with Cons.IH [OF Cons.prems, of b] Flush show ?thesis
        by (auto simp: WriteToConn_empty)
    next
      case False
      obtain n err where
        ne: "on_write (wb_conn wb) (length (written (wb_conn wb))) (wb_buf wb) = (n, err)"
        by (cases "on_write (wb_conn wb) (length (written (wb_conn wb))) (wb_buf wb)")
      have rng: "0 \<le> n" "n \<le> int (length (wb_buf wb))"
        using Cons.prems [of "length (written (wb_conn wb))" "wb_buf wb"] ne by auto
      let ?wb1 = "wb\<lparr>wb_buf := drop (nat n) (wb_buf wb),
                     wb_conn := (wb_conn wb)\<lparr>written :=
                       written (wb_conn wb) @ [take (nat n) (wb_buf wb)]\<rparr>\<rparr>"
      have step: "WriteToConn wb = (Inr (n, err), ?wb1)"
        by (rule WriteToConn_ok [OF False ne rng])
      have "\<And>k d. 0 \<le> fst (on_write (wb_conn ?wb1) k d) \<and>
                   fst (on_write (wb_conn ?wb1) k d) \<le> int (length d)"
        using Cons.prems by simp
      from Cons.IH [OF this, of b] obtain wb' b' sent where
        run: "run_wops ops (?wb1, b) = Inr (wb', b')"
        and ow: "on_write (wb_conn wb') = on_write (wb_conn ?wb1)"
        and w: "wire (wb_conn wb') = wire (wb_conn ?wb1) @ sent"
        and sb: "sent @ wb_buf wb' = wb_buf ?wb1 @ appended ops"
        by blast
      have "wire (wb_conn wb') = wire (wb_conn wb) @ (take (nat n) (wb_buf wb) @ sent)"
        using w by (simp add: wire_def)
      moreover have "(take (nat n) (wb_buf wb) @ sent) @ wb_buf wb' = wb_buf wb @ appended (op # ops)"
        using sb Flush by simp
      moreover have "run_wops (op # ops) (wb, b) = Inr (wb', b')"
        using Flush step run by simp
      moreover have "on_write (wb_conn wb') = on_write (wb_conn wb)" using ow by simp
      ultimately show ?thesis by blast
    qed
  qed
qed

lemma run_flushes_drain:
  assumes "\<And>k d. 0 \<le> fst (on_write (wb_conn wb) k d) \<and>
                  fst (on_write (wb_conn wb) k d) \<le> int (length d)"
    and "\<And>k d. d \<noteq> [] \<Longrightarrow> 0 < fst (on_write (wb_conn wb) k d)"
    and "length (wb_buf wb) \<le> j"
  shows "\<exists>wb'. run_wops (replicate j Flush) (wb, b) = Inr (wb', b) \<and>
           wb_buf wb' = [] \<and> wire (wb_conn wb') = wire (wb_conn wb) @ wb_buf wb"
  using assms
proof (induction j arbitrary: wb)
  case 0
  then show ?case by simp
next
  case (Suc j)
  show ?case
  proof (cases "wb_buf wb = []")
    case True
    have "length (wb_buf wb) \<le> j" using True by simp
    from Suc.IH [OF Suc.prems(1,2) this] True show ?thesis
      by (auto simp: WriteToConn_empty)
  next
    case False
    obtain n err where
      ne: "on_write (wb_conn wb) (length (written (wb_conn wb))) (wb_buf wb) = (n, err)"
      by (cases "on_write (wb_conn wb) (length (written (wb_conn wb))) (wb_buf wb)")
    have rng: "0 \<le> n" "n \<le> int (length (wb_buf wb))"
      using Suc.prems(1) [of "length (written (wb_conn wb))" "wb_buf wb"] ne by auto
    have pos: "0 < n"
      using Suc.prems(2) [OF False, of "length (written (wb_conn wb))"] ne by simp
    let ?wb1 = "wb\<lparr>wb_buf := drop (nat n) (wb_buf wb),
                   wb_conn := (wb_conn wb)\<lparr>written :=
                     written (wb_conn wb) @ [take (nat n) (wb_buf wb)]\<rparr>\<rparr>"
    have step: "WriteToConn wb = (Inr (n, err), ?wb1)"
      by (rule WriteToConn_ok [OF False ne rng])
    have c1: "\<And>k d. 0 \<le> fst (on_write (wb_conn ?wb1) k d) \<and>
                 fst (on_write (wb_conn ?wb1) k d) \<le> int (length d)"
      using Suc.prems(1) by simp
    have c2: "\<And>k d. d \<noteq> [] \<Longrightarrow> 0 < fst (on_write (wb_conn ?wb1) k d)"
      using Suc.prems(2) by simp
    have c3: "length (wb_buf ?wb1) \<le> j"
      using Suc.prems(3) pos by simp
    from Suc.IH [OF c1 c2 c3] obtain wb' where
      run: "run_wops (replicate j Flush) (?wb1, b) = Inr (wb', b)"
      and e: "wb_buf wb' = []"
      and w: "wire (wb_conn wb') = wire (wb_conn ?wb1) @ wb_buf ?wb1"
      by blast
    have "wire (wb_conn wb') = wire (wb_conn wb) @ wb_buf wb"
      using w by (simp add: wire_def)
    moreover have "run_wops (replicate (Suc j) Flush) (wb, b) = Inr (wb', b)"
      using step run by simp
    ultimately show ?thesis using e by blast
  qed
qed

lemma run_wops_example:
  "run_wops [Append ''hello '', Flush, Append ''world'', Flush, Flush]
        (new_writeBio False (test_conn 5 []), {}) =
     Inr (\<lparr>wb_buf = [], wb_release_buffers = False,
           wb_conn = (test_conn 5 [])\<lparr>written := [''hello'', '' worl'', ''d'']\<rparr>\<rparr>, {})"
  by (simp add: new_writeBio_def test_conn_def go_write_bio_write_eq WriteToConn_def
      conn_Write_def go_copy_def Let_def bioClearRetryFlags_def X_BIO_clear_flags_def)

lemma WriteToConn_overreport:
  assumes "wb_buf wb \<noteq> []"
    and "on_write (wb_conn wb) (length (written (wb_conn wb))) (wb_buf wb) = (n, err)"
    and "n < 0 \<or> int (length (wb_buf wb)) < n"
  shows "WriteToConn wb =
           (Inl SliceBoundsOutOfRange,
            wb\<lparr>wb_conn := (wb_conn wb)\<lparr>written :=
                 written (wb_conn wb) @ [take (nat n) (wb_buf wb)]\<rparr>\<rparr>)"
  using assms
  by (auto simp: WriteToConn_def conn_Write_def Let_def)

text \<open>A flush into the connection \<open>test_conn 5\<close>, which takes at most 5 bytes per
  \<^verbatim>\<open>Write\<close>: the bytes reported written, and what is pending after it.\<close>

lemma flush_trace_step5:
  assumes "wb_buf wb \<noteq> []"
    and "on_write (wb_conn wb) = on_write (test_conn 5 [])"
    and "length (wb_buf wb) < 2147483648"
  shows "flush_trace (Suc j) wb =
           (min 5 (int (length (wb_buf wb))),
            int (length (wb_buf wb)) - min 5 (int (length (wb_buf wb))))
           # flush_trace j
               (wb\<lparr>wb_buf := drop 5 (wb_buf wb),
                   wb_conn := (wb_conn wb)\<lparr>written :=
                     written (wb_conn wb) @ [take 5 (wb_buf wb)]\<rparr>\<rparr>)"
proof -
  let ?n = "min 5 (int (length (wb_buf wb)))"
  have w: "on_write (wb_conn wb) (length (written (wb_conn wb))) (wb_buf wb) = (?n, None)"
    using assms(2) by (simp add: test_conn_def)
  have t: "take (nat ?n) (wb_buf wb) = take 5 (wb_buf wb)"
    and d: "drop (nat ?n) (wb_buf wb) = drop 5 (wb_buf wb)"
    by (simp_all add: min_def)
  have p: "C_long (int (length (wb_buf wb) - 5)) = int (length (wb_buf wb)) - ?n"
    using assms(3) by (subst C_long_id) (auto simp: min_def)
  show ?thesis
    using WriteToConn_ok [OF assms(1) w] p
    by (simp add: t d writeBioPending_def)
qed

lemma flush_trace_empty:
  "wb_buf wb = [] \<Longrightarrow> flush_trace (Suc j) wb = (0, 0) # flush_trace j wb"
  by (simp add: WriteToConn_empty writeBioPending_def C_long_def)

subsection \<open>Helper facts: the read adapter\<close>

lemma go_read_bio_read_empty:
  "rb_buf rb = [] \<Longrightarrow> 0 \<le> sz \<Longrightarrow>
     go_read_bio_read (Some rb) b data sz =
       (if rb_eof rb then (0, Some rb, bioClearRetryFlags b, data)
        else (- 1, Some rb, bioSetRetryRead (bioClearRetryFlags b), data))"
  by (simp add: go_read_bio_read_def go_read_bio_read_body_def recover_rc_def Let_def)

lemma go_read_bio_read_copy:
  assumes "rb_buf rb \<noteq> []" and "0 < sz" and "sz \<le> int (length mem)"
  shows "go_read_bio_read (Some rb) b (Some mem) sz =
           (C_int (int (min (nat sz) (length (rb_buf rb)))),
            Some (if rb_release_buffers rb \<and> length (rb_buf rb) \<le> nat sz
                  then rb\<lparr>rb_buf := [], rb_cap := 0\<rparr>
                  else rb\<lparr>rb_buf := drop (nat sz) (rb_buf rb)\<rparr>),
            bioClearRetryFlags b,
            Some (take (nat sz) (rb_buf rb) @ drop (min (nat sz) (length (rb_buf rb))) mem))"
proof (cases "nat sz \<le> length (rb_buf rb)")
  case True
  have s: "nat sz \<le> length mem" using assms by linarith
  have c1: "go_copy (nonCopyCString mem sz) (rb_buf rb) = (take (nat sz) (rb_buf rb), nat sz)"
    using s True by (simp add: go_copy_def nonCopyCString_def nonCopyGoBytes_def Let_def min_def)
  obtain moved k where c2: "go_copy (rb_buf rb) (drop (nat sz) (rb_buf rb)) = (moved, k)"
    by (cases "go_copy (rb_buf rb) (drop (nat sz) (rb_buf rb))")
  note c3 = go_copy_compact [OF c2]
  have body: "go_read_bio_read_body (Some rb) b (Some mem) sz =
     (Inr (C_int (int (nat sz))),
      Some (if rb_release_buffers rb \<and> length (rb_buf rb) \<le> nat sz
            then rb\<lparr>rb_buf := [], rb_cap := 0\<rparr>
            else rb\<lparr>rb_buf := drop (nat sz) (rb_buf rb)\<rparr>),
      bioClearRetryFlags b,
      Some (take (nat sz) (rb_buf rb) @ drop (nat sz) mem))"
    unfolding go_read_bio_read_body_def using assms(1,2) True c3
    by (auto simp: Let_def c1 c2)
  show ?thesis
    using True by (simp add: go_read_bio_read_def body recover_rc_def min_def)
next
  case False
  have s: "nat sz \<le> length mem" using assms by linarith
  have m: "drop (length (rb_buf rb)) (take (nat sz) mem) @ drop (nat sz) mem
             = drop (length (rb_buf rb)) mem"
    by (rule drop_take_rest) (use s False in auto)
  have c1: "go_copy (nonCopyCString mem sz) (rb_buf rb) =
              (rb_buf rb @ drop (length (rb_buf rb)) (take (nat sz) mem), length (rb_buf rb))"
    using s False
    by (simp add: go_copy_def nonCopyCString_def nonCopyGoBytes_def Let_def min_def del: drop_take)
  have c2: "go_copy (rb_buf rb) [] = (rb_buf rb, 0)"
    by (simp add: go_copy_def Let_def)
  have body: "go_read_bio_read_body (Some rb) b (Some mem) sz =
     (Inr (C_int (int (length (rb_buf rb)))),
      Some (if rb_release_buffers rb then rb\<lparr>rb_buf := [], rb_cap := 0\<rparr>
            else rb\<lparr>rb_buf := []\<rparr>),
      bioClearRetryFlags b,
      Some (rb_buf rb @ drop (length (rb_buf rb)) mem))"
    unfolding go_read_bio_read_body_def using assms(1,2) m
    by (simp add: Let_def c1 c2 del: drop_take)
  show ?thesis
    using False by (simp add: go_read_bio_read_def body recover_rc_def min_def)
qed

lemma go_read_bio_read_nocopy:
  "rb_buf rb \<noteq> [] \<Longrightarrow> 0 \<le> sz \<Longrightarrow> sz = 0 \<or> data = None \<Longrightarrow>
     go_read_bio_read (Some rb) b data sz =
       (C_int (int (length (rb_buf rb))), Some rb, bioClearRetryFlags b, data)"
  by (auto simp: go_read_bio_read_def go_read_bio_read_body_def recover_rc_def Let_def)

lemma go_read_bio_read_eof:
  "go_read_bio_read (Some rb) b data sz = (rc, ptr1, b1, data1) \<Longrightarrow>
     \<exists>rb1. ptr1 = Some rb1 \<and> rb_eof rb1 = rb_eof rb"
  by (auto simp: go_read_bio_read_def go_read_bio_read_body_def Let_def
      split: if_splits prod.splits)

text \<open>What \<^verbatim>\<open>ReadFromConnOnce\<close> does, in one equation: \<open>m\<close> is the room it offers the
  \<^verbatim>\<open>Read\<close>, \<open>chunk\<close> and \<open>err\<close> are what the \<^verbatim>\<open>Read\<close> answers.\<close>

lemma ReadFromConnOnce_eq:
  assumes m: "m = (if rb_cap rb < length (rb_buf rb) + SSLRecordSize then SSLRecordSize
                   else rb_cap rb - length (rb_buf rb))"
    and r: "on_read (rb_conn rb) (length (reads (rb_conn rb))) m = (chunk, err)"
  shows "ReadFromConnOnce rb =
           (if length chunk \<le> m then Inr (int (length chunk), err) else Inl SliceBoundsOutOfRange,
            rb\<lparr>rb_buf := (if length chunk \<le> m then rb_buf rb @ chunk else rb_buf rb),
               rb_cap := length (rb_buf rb) + m,
               rb_conn := (rb_conn rb)\<lparr>reads := reads (rb_conn rb) @ [(m, chunk)]\<rparr>\<rparr>)"
proof (cases "rb_cap rb < length (rb_buf rb) + SSLRecordSize")
  case True
  then have m': "m = SSLRecordSize" using m by simp
  show ?thesis
    using True r unfolding m'
    by (auto simp: ReadFromConnOnce_def conn_Read_def go_copy_def Let_def min_def)
next
  case False
  then have m': "m = rb_cap rb - length (rb_buf rb)" using m by simp
  have cap: "length (rb_buf rb) + (rb_cap rb - length (rb_buf rb)) = rb_cap rb"
    using False by simp
  show ?thesis
    using False r unfolding m'
    by (auto simp: ReadFromConnOnce_def conn_Read_def go_copy_def Let_def min_def cap)
qed

lemma ReadFromConnOnce_eof: "rb_eof (snd (ReadFromConnOnce rb)) = rb_eof rb"
proof -
  obtain chunk err where
    "on_read (rb_conn rb) (length (reads (rb_conn rb)))
       (if rb_cap rb < length (rb_buf rb) + SSLRecordSize then SSLRecordSize
        else rb_cap rb - length (rb_buf rb)) = (chunk, err)"
    by (cases "on_read (rb_conn rb) (length (reads (rb_conn rb)))
       (if rb_cap rb < length (rb_buf rb) + SSLRecordSize then SSLRecordSize
        else rb_cap rb - length (rb_buf rb))")
  from ReadFromConnOnce_eq [OF refl this] show ?thesis by simp
qed

lemma drain_step:
  assumes "m < 2147483648"
  shows "\<exists>rc rb1 b1 mem1.
           go_read_bio_read (Some rb) b (Some (replicate m c)) (int m) = (rc, Some rb1, b1, Some mem1) \<and>
           rb_conn rb1 = rb_conn rb \<and>
           (if 0 < rc then take (nat rc) mem1 else []) @ rb_buf rb1 = rb_buf rb"
proof (cases "rb_buf rb = []")
  case True
  then show ?thesis
    by (simp add: go_read_bio_read_empty)
next
  case ne: False
  show ?thesis
  proof (cases "m = 0")
    case True
    then show ?thesis using ne by (simp add: go_read_bio_read_nocopy)
  next
    case False
    let ?n = "min m (length (rb_buf rb))"
    have n: "0 < ?n" "int ?n < 2147483648" using False ne assms by auto
    have rc: "C_int (int ?n) = int ?n" using n by (intro C_int_id) auto
    have "go_read_bio_read (Some rb) b (Some (replicate m c)) (int m) =
           (int ?n,
            Some (if rb_release_buffers rb \<and> length (rb_buf rb) \<le> m
                  then rb\<lparr>rb_buf := [], rb_cap := 0\<rparr>
                  else rb\<lparr>rb_buf := drop m (rb_buf rb)\<rparr>),
            bioClearRetryFlags b,
            Some (take m (rb_buf rb) @ drop ?n (replicate m c)))"
      using go_read_bio_read_copy [of rb "int m" "replicate m c" b] ne False rc by simp
    moreover have "take ?n (take m (rb_buf rb) @ drop ?n (replicate m c)) @ drop m (rb_buf rb)
                     = rb_buf rb"
      by (cases "m \<le> length (rb_buf rb)") (simp_all add: min_def)
    ultimately show ?thesis using n by auto
  qed
qed

lemma run_rops_inv:
  assumes "\<And>k m. length (fst (on_read (rb_conn rb) k m)) \<le> m"
    and "\<And>m. Drain m \<in> set ops \<Longrightarrow> m < 2147483648"
  shows "\<exists>rb' b' out'. run_rops ops (rb, b, out) = Inr (rb', b', out') \<and>
           (\<exists>new. delivered (rb_conn rb') = delivered (rb_conn rb) @ new \<and>
                  out' @ rb_buf rb' = out @ rb_buf rb @ new)"
  using assms
proof (induction ops arbitrary: rb b out)
  case Nil
  then show ?case by simp
next
  case (Cons op ops)
  have caps: "\<And>m. Drain m \<in> set ops \<Longrightarrow> m < 2147483648"
    using Cons.prems(2) by simp
  show ?case
  proof (cases op)
    case Deliver
    define m where "m = (if rb_cap rb < length (rb_buf rb) + SSLRecordSize then SSLRecordSize
                   else rb_cap rb - length (rb_buf rb))"
    obtain chunk err where
      r: "on_read (rb_conn rb) (length (reads (rb_conn rb))) m = (chunk, err)"
      by (cases "on_read (rb_conn rb) (length (reads (rb_conn rb))) m")
    have len: "length chunk \<le> m"
      using Cons.prems(1) [of "length (reads (rb_conn rb))" m] r by simp
    let ?rb1 = "rb\<lparr>rb_buf := rb_buf rb @ chunk,
               rb_cap := length (rb_buf rb) + m,
               rb_conn := (rb_conn rb)\<lparr>reads := reads (rb_conn rb) @ [(m, chunk)]\<rparr>\<rparr>"
    have step: "ReadFromConnOnce rb = (Inr (int (length chunk), err), ?rb1)"
      using ReadFromConnOnce_eq [OF m_def r] len by simp
    have conf: "\<And>k m. length (fst (on_read (rb_conn ?rb1) k m)) \<le> m"
      using Cons.prems(1) by simp
    from Cons.IH [OF conf caps, of b out] show ?thesis
      using Deliver step by (auto simp: delivered_def)
  next
    case (Drain m)
    have "m < 2147483648" using Cons.prems(2) Drain by simp
    from drain_step [OF this, of rb b "CHR 0x00"] obtain rc rb1 b1 mem1 where
      step: "go_read_bio_read (Some rb) b (Some (replicate m (CHR 0x00))) (int m)
               = (rc, Some rb1, b1, Some mem1)"
      and c: "rb_conn rb1 = rb_conn rb"
      and o: "(if 0 < rc then take (nat rc) mem1 else []) @ rb_buf rb1 = rb_buf rb"
      by blast
    have conf: "\<And>k m. length (fst (on_read (rb_conn rb1) k m)) \<le> m"
      using Cons.prems(1) c by simp
    define d where "d = (if 0 < rc then take (nat rc) mem1 else [])"
    from Cons.IH [OF conf caps, of b1 "out @ d"] obtain rb' b' out' new where
      run: "run_rops ops (rb1, b1, out @ d) = Inr (rb', b', out')"
      and dl: "delivered (rb_conn rb') = delivered (rb_conn rb1) @ new"
      and inv: "out' @ rb_buf rb' = (out @ d) @ rb_buf rb1 @ new"
      by blast
    have "out' @ rb_buf rb' = out @ rb_buf rb @ new"
      using inv o [folded d_def, symmetric] by simp
    moreover have "run_rops (op # ops) (rb, b, out) = Inr (rb', b', out')"
      using Drain step run by (cases "0 < rc") (simp_all add: d_def)
    ultimately show ?thesis using dl c by auto
  qed
qed

lemma run_rops_example:
  "run_rops [Deliver, Drain 3, Deliver, Deliver, Drain 32]
        (new_readBio False (test_conn 5 [''clien'', ''t test mes'', ''sage'' @ [CHR 0x0A]]), {}, [])
   = Inr (rb, b, out) \<Longrightarrow> out = clientMsg \<and> rb_buf rb = []"
  apply (simp add: new_readBio_def test_conn_def ReadFromConnOnce_def conn_Read_def go_copy_def
      Let_def SSLRecordSize_def go_read_bio_read_def go_read_bio_read_body_def recover_rc_def
      nonCopyCString_def nonCopyGoBytes_def C_int_def clientMsg_def)
  apply auto
  done

lemma read_requests_eof:
  "rb_buf rb = [] \<Longrightarrow> rb_eof rb \<Longrightarrow> read_requests ms (rb, b) = replicate (length ms) 0"
  by (induction ms arbitrary: b) (simp_all add: go_read_bio_read_empty)

lemma rb_step_eof:
  "rb_eof (fst (rb_step c (rb, b))) = (rb_eof rb \<or> c = Call_MarkEOF)"
proof (cases c)
  case (Call_read data sz)
  obtain rc ptr1 b1 data1 where
    g: "go_read_bio_read (Some rb) b data sz = (rc, ptr1, b1, data1)"
    by (cases "go_read_bio_read (Some rb) b data sz")
  from go_read_bio_read_eof [OF g] g Call_read show ?thesis by auto
next
  case (Call_ctrl cmd)
  then show ?thesis by simp
next
  case Call_ReadFromConnOnce
  then show ?thesis by (simp add: ReadFromConnOnce_eof)
next
  case Call_MarkEOF
  then show ?thesis by (simp add: MarkEOF_def)
qed

lemma eof_trace_True:
  "rb_eof (fst s) \<Longrightarrow> eof_trace cs s = replicate (length cs) True"
proof (induction cs arbitrary: s)
  case Nil
  then show ?case by simp
next
  case (Cons c cs)
  obtain rb b where s: "s = (rb, b)" by (cases s)
  have "rb_eof (fst (rb_step c s))" using Cons.prems s by (simp add: rb_step_eof)
  with Cons.IH [of "rb_step c s"] show ?case by simp
qed

lemma eof_trace_shape:
  "\<exists>k. rb_eof (fst s) # eof_trace cs s = replicate k False @ replicate (Suc (length cs) - k) True"
proof (induction cs arbitrary: s)
  case Nil
  show ?case
  proof (cases "rb_eof (fst s)")
    case True
    then have "rb_eof (fst s) # eof_trace [] s = replicate 0 False @ replicate (Suc (length ([]::rb_call list)) - 0) True"
      by simp
    then show ?thesis by blast
  next
    case False
    then have "rb_eof (fst s) # eof_trace [] s = replicate 1 False @ replicate (Suc (length ([]::rb_call list)) - 1) True"
      by simp
    then show ?thesis by blast
  qed
next
  case (Cons c cs)
  show ?case
  proof (cases "rb_eof (fst s)")
    case True
    then have "rb_eof (fst s) # eof_trace (c # cs) s =
                 replicate 0 False @ replicate (Suc (length (c # cs)) - 0) True"
      using eof_trace_True [OF True, of "c # cs"] by simp
    then show ?thesis by blast
  next
    case False
    from Cons.IH [of "rb_step c s"] obtain k where
      k: "rb_eof (fst (rb_step c s)) # eof_trace cs (rb_step c s) =
            replicate k False @ replicate (Suc (length cs) - k) True"
      by blast
    have "rb_eof (fst s) # eof_trace (c # cs) s =
            replicate (Suc k) False @ replicate (Suc (length (c # cs)) - Suc k) True"
      using False k by simp
    then show ?thesis by blast
  qed
qed

subsection \<open>The write adapter keeps the order of the bytes\<close>

text \<open>
  Claim C1. Take a write adapter in any state and a connection whose every \<^verbatim>\<open>Write\<close>
  takes some number of bytes between none and all of what it is handed (a short write of
  any length). Then:
  \<^item> every run of \<open>Append\<close> and \<open>Flush\<close> calls, in any order and number, returns; the
    bytes the connection has taken are those it had taken before followed by the bytes
    \<open>sent\<close> of this run, and \<open>sent\<close> followed by the bytes still buffered are the bytes
    buffered before followed by the bytes appended, in that order: nothing is lost,
    duplicated or reordered;
  \<^item> a single flush of a non-empty buffer hands the whole buffer to one \<^verbatim>\<open>Write\<close>; when
    that \<^verbatim>\<open>Write\<close> reports \<open>n\<close> bytes taken, the flush returns \<open>n\<close> with the error of
    the \<^verbatim>\<open>Write\<close>, the connection has taken exactly the first \<open>n\<close> bytes of the buffer,
    and the unwritten rest is the new buffer;
  \<^item> when moreover every \<^verbatim>\<open>Write\<close> of a non-empty buffer takes at least one byte, the
    run followed by as many flushes as there were bytes to write leaves the buffer empty,
    and the bytes the connection has taken are those it had taken before, the bytes buffered
    before and all the bytes appended, in that order.
\<close>

theorem write_adapter_fifo:
  assumes "\<And>k d. 0 \<le> fst (on_write (wb_conn wb) k d) \<and>
                  fst (on_write (wb_conn wb) k d) \<le> int (length d)"
  shows "(\<exists>wb' b' sent. run_wops ops (wb, b) = Inr (wb', b') \<and>
            wire (wb_conn wb') = wire (wb_conn wb) @ sent \<and>
            sent @ wb_buf wb' = wb_buf wb @ appended ops) \<and>
         (wb_buf wb \<noteq> [] \<and>
          on_write (wb_conn wb) (length (written (wb_conn wb))) (wb_buf wb) = (n, err) \<longrightarrow>
            (\<exists>wb1. WriteToConn wb = (Inr (n, err), wb1) \<and>
               written (wb_conn wb1) = written (wb_conn wb) @ [take (nat n) (wb_buf wb)] \<and>
               wire (wb_conn wb1) = wire (wb_conn wb) @ take (nat n) (wb_buf wb) \<and>
               int (length (take (nat n) (wb_buf wb))) = n \<and>
               wb_buf wb1 = drop (nat n) (wb_buf wb))) \<and>
         ((\<forall>k d. d \<noteq> [] \<longrightarrow> 0 < fst (on_write (wb_conn wb) k d)) \<longrightarrow>
            (\<exists>wb' b'.
               run_wops (ops @ replicate (length (wb_buf wb @ appended ops)) Flush) (wb, b)
                 = Inr (wb', b') \<and>
               wb_buf wb' = [] \<and>
               wire (wb_conn wb') = wire (wb_conn wb) @ wb_buf wb @ appended ops))"
proof (intro conjI impI)
  from run_wops_sent [OF assms, of ops b]
  show "\<exists>wb' b' sent. run_wops ops (wb, b) = Inr (wb', b') \<and>
            wire (wb_conn wb') = wire (wb_conn wb) @ sent \<and>
            sent @ wb_buf wb' = wb_buf wb @ appended ops"
    by blast
next
  assume a: "wb_buf wb \<noteq> [] \<and>
          on_write (wb_conn wb) (length (written (wb_conn wb))) (wb_buf wb) = (n, err)"
  then have ne: "wb_buf wb \<noteq> []"
    and w: "on_write (wb_conn wb) (length (written (wb_conn wb))) (wb_buf wb) = (n, err)"
    by simp_all
  have rng: "0 \<le> n" "n \<le> int (length (wb_buf wb))"
    using assms [of "length (written (wb_conn wb))" "wb_buf wb"] w by auto
  show "\<exists>wb1. WriteToConn wb = (Inr (n, err), wb1) \<and>
               written (wb_conn wb1) = written (wb_conn wb) @ [take (nat n) (wb_buf wb)] \<and>
               wire (wb_conn wb1) = wire (wb_conn wb) @ take (nat n) (wb_buf wb) \<and>
               int (length (take (nat n) (wb_buf wb))) = n \<and>
               wb_buf wb1 = drop (nat n) (wb_buf wb)"
  proof -
    have "nat n \<le> length (wb_buf wb)" using rng by linarith
    then have "int (length (take (nat n) (wb_buf wb))) = n" using rng by simp
    then show ?thesis
      using WriteToConn_ok [OF ne w rng] by (simp add: wire_def)
  qed
next
  assume p: "\<forall>k d. d \<noteq> [] \<longrightarrow> 0 < fst (on_write (wb_conn wb) k d)"
  from run_wops_sent [OF assms, of ops b] obtain wb1 b1 sent where
    run: "run_wops ops (wb, b) = Inr (wb1, b1)"
    and ow: "on_write (wb_conn wb1) = on_write (wb_conn wb)"
    and w: "wire (wb_conn wb1) = wire (wb_conn wb) @ sent"
    and sb: "sent @ wb_buf wb1 = wb_buf wb @ appended ops"
    by blast
  have c1: "\<And>k d. 0 \<le> fst (on_write (wb_conn wb1) k d) \<and>
               fst (on_write (wb_conn wb1) k d) \<le> int (length d)"
    using assms ow by simp
  have c2: "\<And>k d. d \<noteq> [] \<Longrightarrow> 0 < fst (on_write (wb_conn wb1) k d)"
    using p ow by simp
  have "length (sent @ wb_buf wb1) = length (wb_buf wb @ appended ops)"
    using sb by simp
  then have c3: "length (wb_buf wb1) \<le> length (wb_buf wb @ appended ops)"
    by simp
  from run_flushes_drain [OF c1 c2 c3, of b1] obtain wb' where
    run2: "run_wops (replicate (length (wb_buf wb @ appended ops)) Flush) (wb1, b1) = Inr (wb', b1)"
    and e: "wb_buf wb' = []"
    and w2: "wire (wb_conn wb') = wire (wb_conn wb1) @ wb_buf wb1"
    by blast
  have "wire (wb_conn wb') = wire (wb_conn wb) @ wb_buf wb @ appended ops"
    using w2 w sb by simp
  moreover have "run_wops (ops @ replicate (length (wb_buf wb @ appended ops)) Flush) (wb, b)
                   = Inr (wb', b1)"
    using run run2 by (simp add: run_wops_append)
  ultimately show "\<exists>wb' b'.
               run_wops (ops @ replicate (length (wb_buf wb @ appended ops)) Flush) (wb, b)
                 = Inr (wb', b') \<and>
               wb_buf wb' = [] \<and>
               wire (wb_conn wb') = wire (wb_conn wb) @ wb_buf wb @ appended ops"
    using e by blast
qed

theorem write_adapter_fifo_witness:
  "(\<forall>k d. 0 \<le> fst (on_write (test_conn 5 []) k d) \<and>
          fst (on_write (test_conn 5 []) k d) \<le> int (length d)) \<and>
   run_wops [Append ''hello '', Flush, Append ''world'', Flush, Flush]
        (new_writeBio False (test_conn 5 []), {}) =
     Inr (\<lparr>wb_buf = [], wb_release_buffers = False,
           wb_conn = (test_conn 5 [])\<lparr>written := [''hello'', '' worl'', ''d'']\<rparr>\<rparr>, {}) \<and>
   wire ((test_conn 5 [])\<lparr>written := [''hello'', '' worl'', ''d'']\<rparr>) = ''hello world'' \<and>
   WriteToConn ((new_writeBio False (test_conn 5 []))\<lparr>wb_buf := ''hello ''\<rparr>) =
     (Inr (5, None),
      \<lparr>wb_buf = '' '', wb_release_buffers = False,
       wb_conn = (test_conn 5 [])\<lparr>written := [''hello'']\<rparr>\<rparr>)"
proof -
  let ?wb = "new_writeBio False (test_conn 5 [])"
  let ?ops = "[Append ''hello '', Flush, Append ''world'', Flush, Flush]"
  have c: "\<And>k d. 0 \<le> fst (on_write (wb_conn ?wb) k d) \<and>
             fst (on_write (wb_conn ?wb) k d) \<le> int (length d)"
    by (simp add: new_writeBio_def test_conn_def)
  have c': "\<And>k d. 0 \<le> fst (on_write (wb_conn (?wb\<lparr>wb_buf := ''hello ''\<rparr>)) k d) \<and>
             fst (on_write (wb_conn (?wb\<lparr>wb_buf := ''hello ''\<rparr>)) k d) \<le> int (length d)"
    by (simp add: new_writeBio_def test_conn_def)
  from write_adapter_fifo [OF c, of ?ops "{}"] obtain wb' b' sent where
    run: "run_wops ?ops (?wb, {}) = Inr (wb', b')"
    and w: "wire (wb_conn wb') = wire (wb_conn ?wb) @ sent"
    and sb: "sent @ wb_buf wb' = wb_buf ?wb @ appended ?ops"
    by blast
  have st: "wb' = \<lparr>wb_buf = [], wb_release_buffers = False,
           wb_conn = (test_conn 5 [])\<lparr>written := [''hello'', '' worl'', ''d'']\<rparr>\<rparr>" "b' = {}"
    using run unfolding run_wops_example by simp_all
  have one: "WriteToConn (?wb\<lparr>wb_buf := ''hello ''\<rparr>) =
     (Inr (5, None),
      \<lparr>wb_buf = '' '', wb_release_buffers = False,
       wb_conn = (test_conn 5 [])\<lparr>written := [''hello'']\<rparr>\<rparr>)"
    using write_adapter_fifo [OF c', of "[]" "{}" 5 None]
    by (auto simp: new_writeBio_def test_conn_def WriteToConn_def
      conn_Write_def go_copy_def Let_def)
  have "wire ((test_conn 5 [])\<lparr>written := [''hello'', '' worl'', ''d'']\<rparr>) = ''hello world''"
    using w sb st by (simp add: new_writeBio_def test_conn_def wire_def)
  with run st one c show ?thesis by (simp add: new_writeBio_def)
qed

subsection \<open>The three answers of a read request\<close>

text \<open>
  Claim C2. Take a read adapter in any state and a read request with a destination of
  \<open>size\<close> bytes, \<open>size\<close> positive (and a C int, so below \<open>2^31\<close>).
  \<^item> When the buffer is not empty, the call copies the first \<open>n = min size (len buf)\<close> bytes
    of the buffer to the front of the destination, returns \<open>n\<close> (which is positive),
    removes exactly these \<open>n\<close> bytes from the front of the buffer, leaves \<open>eof\<close> alone and
    leaves the retry flag clear.
  \<^item> When the buffer is empty and \<open>eof\<close> is set, the call returns 0 with the retry flag
    clear and changes nothing in the adapter, so that every later read request, whatever
    its capacity, returns 0 again.
  \<^item> When the buffer is empty and \<open>eof\<close> is not set, the call returns \<open>-1\<close> with the
    read and should-retry flags set, and changes nothing in the adapter.
\<close>

theorem read_request_three_way:
  assumes "0 < sz" and "sz < 2147483648" and "sz \<le> int (length mem)"
  shows "(rb_buf rb \<noteq> [] \<longrightarrow>
            (\<exists>n rb'. n = min (nat sz) (length (rb_buf rb)) \<and> 0 < n \<and>
               go_read_bio_read (Some rb) b (Some mem) sz =
                 (int n, Some rb', bioClearRetryFlags b, Some (take n (rb_buf rb) @ drop n mem)) \<and>
               rb_buf rb' = drop n (rb_buf rb) \<and> rb_eof rb' = rb_eof rb \<and>
               BIO_FLAGS_SHOULD_RETRY \<notin> bioClearRetryFlags b)) \<and>
         (rb_buf rb = [] \<and> rb_eof rb \<longrightarrow>
            go_read_bio_read (Some rb) b (Some mem) sz =
              (0, Some rb, bioClearRetryFlags b, Some mem) \<and>
            BIO_FLAGS_SHOULD_RETRY \<notin> bioClearRetryFlags b \<and>
            read_requests ms (rb, b) = replicate (length ms) 0) \<and>
         (rb_buf rb = [] \<and> \<not> rb_eof rb \<longrightarrow>
            (\<exists>b'. go_read_bio_read (Some rb) b (Some mem) sz = (- 1, Some rb, b', Some mem) \<and>
               BIO_FLAGS_READ \<in> b' \<and> BIO_FLAGS_SHOULD_RETRY \<in> b'))"
proof (intro conjI impI)
  assume ne: "rb_buf rb \<noteq> []"
  let ?n = "min (nat sz) (length (rb_buf rb))"
  have n: "0 < ?n" using ne assms(1) by simp
  have "?n \<le> nat sz" by simp
  then have "int ?n < 2147483648" using assms(1,2) by linarith
  then have rc: "C_int (int ?n) = int ?n" by (intro C_int_id) auto
  have t: "take (nat sz) (rb_buf rb) = take ?n (rb_buf rb)" by (simp add: min_def)
  have d: "drop (nat sz) (rb_buf rb) = drop ?n (rb_buf rb)" by (simp add: min_def)
  show "\<exists>n rb'. n = min (nat sz) (length (rb_buf rb)) \<and> 0 < n \<and>
               go_read_bio_read (Some rb) b (Some mem) sz =
                 (int n, Some rb', bioClearRetryFlags b, Some (take n (rb_buf rb) @ drop n mem)) \<and>
               rb_buf rb' = drop n (rb_buf rb) \<and> rb_eof rb' = rb_eof rb \<and>
               BIO_FLAGS_SHOULD_RETRY \<notin> bioClearRetryFlags b"
    using go_read_bio_read_copy [OF ne assms(1,3), of b] n
    unfolding rc t d
    by (auto simp: retry_flags)
next
  assume e: "rb_buf rb = [] \<and> rb_eof rb"
  then show "go_read_bio_read (Some rb) b (Some mem) sz =
              (0, Some rb, bioClearRetryFlags b, Some mem)"
    using assms(1) by (simp add: go_read_bio_read_empty)
  show "BIO_FLAGS_SHOULD_RETRY \<notin> bioClearRetryFlags b" by (rule retry_flags)
  show "read_requests ms (rb, b) = replicate (length ms) 0"
    using e by (simp add: read_requests_eof)
next
  assume "rb_buf rb = [] \<and> \<not> rb_eof rb"
  then show "\<exists>b'. go_read_bio_read (Some rb) b (Some mem) sz = (- 1, Some rb, b', Some mem) \<and>
               BIO_FLAGS_READ \<in> b' \<and> BIO_FLAGS_SHOULD_RETRY \<in> b'"
    using assms(1) by (simp add: go_read_bio_read_empty retry_flags)
qed

theorem read_request_three_way_witness:
  "go_read_bio_read (Some ((new_readBio False (test_conn 5 []))\<lparr>rb_buf := ''hello''\<rparr>)) {}
       (Some ''xxxx'') 3 =
     (3, Some ((new_readBio False (test_conn 5 []))\<lparr>rb_buf := ''lo''\<rparr>), {}, Some ''helx'') \<and>
   go_read_bio_read (Some (MarkEOF (new_readBio False (test_conn 5 [])))) {} (Some ''xxxx'') 3 =
     (0, Some (MarkEOF (new_readBio False (test_conn 5 []))), {}, Some ''xxxx'') \<and>
   read_requests [3, 1, 7] (MarkEOF (new_readBio False (test_conn 5 [])), {}) = [0, 0, 0] \<and>
   go_read_bio_read (Some (new_readBio False (test_conn 5 []))) {} (Some ''xxxx'') 3 =
     (- 1, Some (new_readBio False (test_conn 5 [])),
      {BIO_FLAGS_READ, BIO_FLAGS_SHOULD_RETRY}, Some ''xxxx'')"
proof -
  have h: "(0::int) < 3" "(3::int) < 2147483648" "(3::int) \<le> int (length ''xxxx'')"
    by simp_all
  note a = read_request_three_way [OF h,
      of "(new_readBio False (test_conn 5 []))\<lparr>rb_buf := ''hello''\<rparr>" "{}"]
  note b = read_request_three_way [OF h,
      of "MarkEOF (new_readBio False (test_conn 5 []))" "{}" "[3, 1, 7]"]
  note c = read_request_three_way [OF h, of "new_readBio False (test_conn 5 [])" "{}"]
  have 1: "go_read_bio_read (Some ((new_readBio False (test_conn 5 []))\<lparr>rb_buf := ''hello''\<rparr>)) {}
       (Some ''xxxx'') 3 =
     (3, Some ((new_readBio False (test_conn 5 []))\<lparr>rb_buf := ''lo''\<rparr>), {}, Some ''helx'')"
    using a
    by (simp add: new_readBio_def bioClearRetryFlags_def X_BIO_clear_flags_def
        go_read_bio_read_def go_read_bio_read_body_def recover_rc_def Let_def go_copy_def
        nonCopyCString_def nonCopyGoBytes_def C_int_def)
  have 2: "go_read_bio_read (Some (MarkEOF (new_readBio False (test_conn 5 [])))) {} (Some ''xxxx'') 3 =
     (0, Some (MarkEOF (new_readBio False (test_conn 5 []))), {}, Some ''xxxx'') \<and>
   read_requests [3, 1, 7] (MarkEOF (new_readBio False (test_conn 5 [])), {}) = [0, 0, 0]"
    using b
    by (simp add: new_readBio_def MarkEOF_def bioClearRetryFlags_def X_BIO_clear_flags_def)
  have 3: "go_read_bio_read (Some (new_readBio False (test_conn 5 []))) {} (Some ''xxxx'') 3 =
     (- 1, Some (new_readBio False (test_conn 5 [])),
      {BIO_FLAGS_READ, BIO_FLAGS_SHOULD_RETRY}, Some ''xxxx'')"
    using c
    by (auto simp: go_read_bio_read_empty new_readBio_def bioClearRetryFlags_def
        X_BIO_clear_flags_def bioSetRetryRead_def X_BIO_set_flags_def)
  from 1 2 3 show ?thesis by simp
qed

subsection \<open>The read adapter keeps the order of the bytes\<close>

text \<open>
  Claim C3. Take a read adapter in any state and a connection whose every \<^verbatim>\<open>Read\<close>
  stores no more bytes than the room it is given (chunks of any size). Then every run of
  \<^verbatim>\<open>ReadFromConnOnce\<close> calls and read requests of any capacities (each a C int), in any
  order and number, returns, and after it the bytes the engine has drained followed by the
  bytes still buffered are the bytes drained before, the bytes buffered before, and the
  bytes \<open>new\<close> that the connection delivered during the run, in that order.
\<close>

theorem read_adapter_fifo:
  assumes "\<And>k m. length (fst (on_read (rb_conn rb) k m)) \<le> m"
    and "\<And>m. Drain m \<in> set ops \<Longrightarrow> m < 2147483648"
  shows "\<exists>rb' b' out'. run_rops ops (rb, b, out) = Inr (rb', b', out') \<and>
           (\<exists>new. delivered (rb_conn rb') = delivered (rb_conn rb) @ new \<and>
                  out' @ rb_buf rb' = out @ rb_buf rb @ new)"
  using assms by (rule run_rops_inv)

theorem read_adapter_fifo_witness:
  "(\<forall>k m. length (fst (on_read
        (test_conn 5 [''clien'', ''t test mes'', ''sage'' @ [CHR 0x0A]]) k m)) \<le> m) \<and>
   (\<exists>rb' b'.
      run_rops [Deliver, Drain 3, Deliver, Deliver, Drain 32]
        (new_readBio False (test_conn 5 [''clien'', ''t test mes'', ''sage'' @ [CHR 0x0A]]), {}, [])
        = Inr (rb', b', clientMsg) \<and>
      rb_buf rb' = [])"
proof -
  let ?c = "test_conn 5 [''clien'', ''t test mes'', ''sage'' @ [CHR 0x0A]]"
  have conf: "\<And>k m. length (fst (on_read ?c k m)) \<le> m"
    by (simp add: test_conn_def)
  then have conf': "\<And>k m. length (fst (on_read (rb_conn (new_readBio False ?c)) k m)) \<le> m"
    by (simp add: new_readBio_def)
  have caps: "\<And>m. Drain m \<in> set [Deliver, Drain 3, Deliver, Deliver, Drain 32]
                \<Longrightarrow> m < 2147483648"
    by auto
  from read_adapter_fifo [OF conf' caps, where b = "{}" and out = "[]"] obtain rb' b' out' where
    run: "run_rops [Deliver, Drain 3, Deliver, Deliver, Drain 32] (new_readBio False ?c, {}, [])
            = Inr (rb', b', out')"
    by blast
  from run_rops_example [OF run] run conf show ?thesis by blast
qed

subsection \<open>One read from the connection\<close>

text \<open>
  Claim C4, as amended. \<^verbatim>\<open>ReadFromConnOnce\<close> performs exactly one \<^verbatim>\<open>Read\<close> on the
  connection per call. The room \<open>m\<close> it offers that \<^verbatim>\<open>Read\<close> is the region between the
  length of the buffer and its capacity, after the capacity has been raised to the length
  plus 16384 when it was below that: so \<open>m\<close> is at least 16384, and the capacity after the
  call is the capacity at the time of the \<^verbatim>\<open>Read\<close>. When the \<^verbatim>\<open>Read\<close> stores \<open>n\<close> bytes
  (no more than the room), the call returns \<open>n\<close> with the error of the \<^verbatim>\<open>Read\<close>, and the
  buffer is the old buffer followed by these \<open>n\<close> bytes. The call never changes \<open>eof\<close>,
  whatever the \<^verbatim>\<open>Read\<close> returns: data, a clean end of stream or an error. The flag is set
  by \<^verbatim>\<open>MarkEOF\<close>, which the owner of the connection calls, and which changes nothing else
  of the buffer.
\<close>

theorem ReadFromConnOnce_one_read:
  assumes m: "m = (if rb_cap rb < length (rb_buf rb) + SSLRecordSize then SSLRecordSize
                   else rb_cap rb - length (rb_buf rb))"
    and r: "on_read (rb_conn rb) (length (reads (rb_conn rb))) m = (chunk, err)"
  shows "16384 \<le> m \<and>
         reads (rb_conn (snd (ReadFromConnOnce rb))) = reads (rb_conn rb) @ [(m, chunk)] \<and>
         rb_cap (snd (ReadFromConnOnce rb)) = length (rb_buf rb) + m \<and>
         rb_eof (snd (ReadFromConnOnce rb)) = rb_eof rb \<and>
         (length chunk \<le> m \<longrightarrow>
            fst (ReadFromConnOnce rb) = Inr (int (length chunk), err) \<and>
            rb_buf (snd (ReadFromConnOnce rb)) = rb_buf rb @ chunk) \<and>
         rb_eof (MarkEOF rb) \<and> rb_buf (MarkEOF rb) = rb_buf rb"
proof -
  have "16384 \<le> m" using m by (auto simp: SSLRecordSize_def split: if_splits)
  then show ?thesis
    by (simp add: ReadFromConnOnce_eq [OF m r] MarkEOF_def)
qed

theorem ReadFromConnOnce_one_read_witness:
  "ReadFromConnOnce (new_readBio False (test_conn 5 [''abc''])) =
     (Inr (3, None),
      \<lparr>rb_buf = ''abc'', rb_cap = 16384, rb_eof = False, rb_release_buffers = False,
       rb_conn = (test_conn 5 [''abc''])\<lparr>reads := [(16384, ''abc'')]\<rparr>\<rparr>)"
proof -
  have m: "16384 = (if rb_cap (new_readBio False (test_conn 5 [''abc'']))
                       < length (rb_buf (new_readBio False (test_conn 5 [''abc'']))) + SSLRecordSize
                    then SSLRecordSize
                    else rb_cap (new_readBio False (test_conn 5 [''abc'']))
                         - length (rb_buf (new_readBio False (test_conn 5 [''abc'']))))"
    by (simp add: new_readBio_def SSLRecordSize_def)
  have r: "on_read (rb_conn (new_readBio False (test_conn 5 [''abc''])))
             (length (reads (rb_conn (new_readBio False (test_conn 5 [''abc'']))))) 16384
           = (''abc'', None)"
    by (simp add: new_readBio_def test_conn_def)
  from ReadFromConnOnce_one_read [OF m r] show ?thesis
    by (cases "ReadFromConnOnce (new_readBio False (test_conn 5 [''abc'']))")
       (auto simp: new_readBio_def test_conn_def ReadFromConnOnce_def conn_Read_def Let_def
          SSLRecordSize_def go_copy_def)
qed

text \<open>The claim as written has \<^verbatim>\<open>ReadFromConnOnce\<close> set \<open>eof\<close> when the connection
  signals a clean end of stream. Here the \<^verbatim>\<open>Read\<close> returns \<open>(0, io.EOF)\<close> and \<open>eof\<close>
  stays unset.\<close>

theorem ReadFromConnOnce_eof_counterexample:
  "fst (ReadFromConnOnce (new_readBio False (test_conn 5 []))) = Inr (0, Some EOF) \<and>
   \<not> rb_eof (snd (ReadFromConnOnce (new_readBio False (test_conn 5 []))))"
  by (simp add: new_readBio_def test_conn_def ReadFromConnOnce_def conn_Read_def Let_def
      SSLRecordSize_def go_copy_def)

subsection \<open>When an append fails\<close>

text \<open>
  Claim C5, as amended. \<^verbatim>\<open>go_write_bio_write\<close> returns \<open>-1\<close> exactly when no adapter is
  registered for the I/O object, the source pointer is null (whatever the length, zero
  included), or the length is negative; it then changes nothing. In every other case it
  appends the \<open>size\<close> bytes at the pointer to the end of the buffer, clears the retry flags
  and returns \<open>size\<close>.
\<close>

theorem append_fails_iff:
  "(fst (go_write_bio_write ptr b data sz) = - 1 \<longleftrightarrow> ptr = None \<or> data = None \<or> sz < 0) \<and>
   (ptr = None \<or> data = None \<or> sz < 0 \<longrightarrow> go_write_bio_write ptr b data sz = (- 1, ptr, b)) \<and>
   (ptr = Some wb \<and> data = Some mem \<and> 0 \<le> sz \<and> sz \<le> int (length mem) \<longrightarrow>
      go_write_bio_write ptr b data sz =
        (sz, Some (wb\<lparr>wb_buf := wb_buf wb @ take (nat sz) mem\<rparr>), bioClearRetryFlags b) \<and>
      length (take (nat sz) mem) = nat sz)"
  by (auto simp: go_write_bio_write_eq)

theorem append_fails_iff_witness:
  "go_write_bio_write (Some (new_writeBio False (test_conn 5 []))) {} (Some ''abcd'') 3 =
     (3, Some ((new_writeBio False (test_conn 5 []))\<lparr>wb_buf := ''abc''\<rparr>), {}) \<and>
   fst (go_write_bio_write (Some (new_writeBio False (test_conn 5 []))) {} (Some ''abcd'') (- 3))
     = - 1"
  using append_fails_iff [of "Some (new_writeBio False (test_conn 5 []))" "{}" "Some ''abcd''" 3
      "new_writeBio False (test_conn 5 [])" "''abcd''"]
    append_fails_iff [of "Some (new_writeBio False (test_conn 5 []))" "{}" "Some ''abcd''" "- 3"]
  by (simp add: new_writeBio_def bioClearRetryFlags_def X_BIO_clear_flags_def)

text \<open>The claim as written has a null source with length zero succeed. It fails.\<close>

theorem append_null_zero_counterexample:
  "go_write_bio_write (Some (new_writeBio False (test_conn 5 []))) {} None 0 =
     (- 1, Some (new_writeBio False (test_conn 5 [])), {})"
  by (simp add: go_write_bio_write_def go_write_bio_write_body_def recover_rc_def)

subsection \<open>The raw stream facade at the end of the stream\<close>

text \<open>
  Claim C6, as amended. When the buffer is not empty and the foreign call returns zero or
  less, \<^verbatim>\<open>anyBio.Read\<close> returns 0 bytes together with the error value \<^verbatim>\<open>io.EOF\<close>, Go's
  end-of-stream signal.
\<close>

theorem anyBio_Read_nonpositive:
  "buf \<noteq> [] \<Longrightarrow> x_bio_read (C_int (int (length buf))) \<le> 0 \<Longrightarrow>
     anyBio_Read x_bio_read buf = (0, Some EOF)"
  by (simp add: anyBio_Read_def Let_def)

theorem anyBio_Read_nonpositive_witness:
  "''abcd'' \<noteq> [] \<and> (\<lambda>len. - 1) (C_int (int (length ''abcd''))) \<le> (0::int) \<and>
   anyBio_Read (\<lambda>len. - 1) ''abcd'' = (0, Some EOF)"
  using anyBio_Read_nonpositive [of "''abcd''" "\<lambda>len. - 1"] by simp

text \<open>The claim as written has no error returned. The error returned is \<^verbatim>\<open>io.EOF\<close>.\<close>

theorem anyBio_Read_error_counterexample:
  "anyBio_Read (\<lambda>len. 0) ''abcd'' = (0, Some EOF) \<and>
   anyBio_Read (\<lambda>len. 0) ''abcd'' \<noteq> (0, None)"
  by (simp add: anyBio_Read_def Let_def)

subsection \<open>The end-of-stream flag is sticky\<close>

text \<open>
  Claim C7. Take a read adapter in any state and any run of its operations (read requests
  with any arguments, ctrl calls with any command, \<^verbatim>\<open>ReadFromConnOnce\<close>, \<^verbatim>\<open>MarkEOF\<close>).
  The values of \<open>eof\<close> before the run and after each of its calls are some number of
  \<open>False\<close> followed by \<open>True\<close> only: the flag goes from unset to set at most once and is
  never unset again. In particular no single operation unsets a flag that is set.
\<close>

theorem eof_sticky:
  "(\<exists>k. rb_eof rb # eof_trace cs (rb, b) =
          replicate k False @ replicate (Suc (length cs) - k) True) \<and>
   (rb_eof rb \<longrightarrow> rb_eof (fst (rb_step c (rb, b))))"
  using eof_trace_shape [of "(rb, b)" cs] by (simp add: rb_step_eof)

theorem eof_sticky_witness:
  "rb_eof (MarkEOF (new_readBio False (test_conn 5 [''abc'']))) \<and>
   rb_eof (fst (rb_step Call_ReadFromConnOnce
                  (MarkEOF (new_readBio False (test_conn 5 [''abc''])), {}))) \<and>
   eof_trace [Call_ReadFromConnOnce, Call_MarkEOF, Call_read (Some ''xxxx'') 2,
              Call_ctrl BIO_CTRL_PENDING, Call_ReadFromConnOnce]
     (new_readBio False (test_conn 5 [''abc'']), {}) = [False, True, True, True, True]"
proof -
  have e: "rb_eof (MarkEOF (new_readBio False (test_conn 5 [''abc''])))"
    by (simp add: MarkEOF_def)
  from eof_sticky [of "MarkEOF (new_readBio False (test_conn 5 [''abc'']))" "[]" "{}"
      Call_ReadFromConnOnce] e
  have "rb_eof (fst (rb_step Call_ReadFromConnOnce
                  (MarkEOF (new_readBio False (test_conn 5 [''abc''])), {})))"
    by blast
  moreover have "eof_trace [Call_ReadFromConnOnce, Call_MarkEOF, Call_read (Some ''xxxx'') 2,
              Call_ctrl BIO_CTRL_PENDING, Call_ReadFromConnOnce]
     (new_readBio False (test_conn 5 [''abc'']), {}) = [False, True, True, True, True]"
    by (simp add: new_readBio_def test_conn_def MarkEOF_def ReadFromConnOnce_def conn_Read_def
        Let_def SSLRecordSize_def go_copy_def go_read_bio_read_def go_read_bio_read_body_def
        recover_rc_def nonCopyCString_def nonCopyGoBytes_def C_int_def)
  ultimately show ?thesis using e by simp
qed

subsection \<open>Draining five bytes at a time\<close>

text \<open>
  Claim C8, as amended. The message \<^verbatim>\<open>"server test message\n"\<close> has 20 bytes. Appended
  to a new write adapter whose connection takes exactly 5 bytes per \<^verbatim>\<open>Write\<close> (all of a
  shorter buffer), it is drained by exactly 4 flushes of 5 bytes each, what is pending
  going down by the bytes written each time: 15, 10, 5, 0; a fifth flush writes nothing.
  A payload of 21 bytes takes exactly 5 flushes, four of 5 bytes and one of 1 byte, what is
  pending going 16, 11, 6, 1, 0. Both hold with the release hint set or not.
\<close>

theorem flush_scenario:
  "length serverMsg = 20 \<and>
   (case go_write_bio_write (Some (new_writeBio r (test_conn 5 []))) {} (Some serverMsg) 20 of
      (rc, ptr1, b1) \<Rightarrow>
        rc = 20 \<and> writeBioPending ptr1 = 20 \<and>
        flush_trace 5 (the ptr1) = [(5, 15), (5, 10), (5, 5), (5, 0), (0, 0)]) \<and>
   (length bs = 21 \<longrightarrow>
      (case go_write_bio_write (Some (new_writeBio r (test_conn 5 []))) {} (Some bs) 21 of
         (rc, ptr1, b1) \<Rightarrow>
           rc = 21 \<and> writeBioPending ptr1 = 21 \<and>
           flush_trace 5 (the ptr1) = [(5, 16), (5, 11), (5, 6), (5, 1), (1, 0)]))"
proof (intro conjI impI)
  show l: "length serverMsg = 20" by (simp add: serverMsg_def)
  have five: "(5::nat) = Suc (Suc (Suc (Suc (Suc 0))))" by simp
  have "flush_trace (Suc (Suc (Suc (Suc (Suc 0)))))
          ((new_writeBio r (test_conn 5 []))\<lparr>wb_buf := serverMsg\<rparr>)
        = [(5, 15), (5, 10), (5, 5), (5, 0), (0, 0)]"
    by (simp add: flush_trace_step5 flush_trace_empty new_writeBio_def serverMsg_def
        del: flush_trace.simps(2))
  then show "case go_write_bio_write (Some (new_writeBio r (test_conn 5 []))) {} (Some serverMsg) 20 of
      (rc, ptr1, b1) \<Rightarrow>
        rc = 20 \<and> writeBioPending ptr1 = 20 \<and>
        flush_trace 5 (the ptr1) = [(5, 15), (5, 10), (5, 5), (5, 0), (0, 0)]"
    using l by (simp add: go_write_bio_write_eq writeBioPending_def C_long_def new_writeBio_def five)
next
  assume l: "length bs = 21"
  have five: "(5::nat) = Suc (Suc (Suc (Suc (Suc 0))))" by simp
  have ne: "bs \<noteq> []" using l by auto
  have "flush_trace (Suc (Suc (Suc (Suc (Suc 0)))))
          ((new_writeBio r (test_conn 5 []))\<lparr>wb_buf := bs\<rparr>)
        = [(5, 16), (5, 11), (5, 6), (5, 1), (1, 0)]"
    using l ne by (simp add: flush_trace_step5 flush_trace_empty new_writeBio_def
        del: flush_trace.simps(2))
  then show "case go_write_bio_write (Some (new_writeBio r (test_conn 5 []))) {} (Some bs) 21 of
         (rc, ptr1, b1) \<Rightarrow>
           rc = 21 \<and> writeBioPending ptr1 = 21 \<and>
           flush_trace 5 (the ptr1) = [(5, 16), (5, 11), (5, 6), (5, 1), (1, 0)]"
    using l by (simp add: go_write_bio_write_eq writeBioPending_def C_long_def new_writeBio_def five)
qed

theorem flush_scenario_witness:
  "length (''server test message!'' @ [CHR 0x0A]) = 21 \<and>
   (case go_write_bio_write (Some (new_writeBio False (test_conn 5 []))) {}
           (Some (''server test message!'' @ [CHR 0x0A])) 21 of
      (rc, ptr1, b1) \<Rightarrow>
        rc = 21 \<and> writeBioPending ptr1 = 21 \<and>
        flush_trace 5 (the ptr1) = [(5, 16), (5, 11), (5, 6), (5, 1), (1, 0)])"
  using flush_scenario [of False "''server test message!'' @ [CHR 0x0A]"] by simp

text \<open>The claim as written has the message hold 21 bytes and take five flushes, the last
  of 1 byte. The message holds 20 bytes, four flushes drain it, and the fifth writes 0.\<close>

theorem flush_scenario_counterexample:
  "length serverMsg = 20 \<and>
   (case go_write_bio_write (Some (new_writeBio False (test_conn 5 []))) {} (Some serverMsg)
           (int (length serverMsg)) of
      (rc, ptr1, b1) \<Rightarrow>
        flush_trace 4 (the ptr1) = [(5, 15), (5, 10), (5, 5), (5, 0)] \<and>
        flush_trace 5 (the ptr1) = [(5, 15), (5, 10), (5, 5), (5, 0), (0, 0)])"
proof -
  have four: "(4::nat) = Suc (Suc (Suc (Suc 0)))"
    and five: "(5::nat) = Suc (Suc (Suc (Suc (Suc 0))))" by simp_all
  have "flush_trace (Suc (Suc (Suc (Suc 0))))
          ((new_writeBio False (test_conn 5 []))\<lparr>wb_buf := serverMsg\<rparr>)
        = [(5, 15), (5, 10), (5, 5), (5, 0)]"
    by (simp add: flush_trace_step5 flush_trace_empty new_writeBio_def serverMsg_def
        del: flush_trace.simps(2))
  moreover have "flush_trace (Suc (Suc (Suc (Suc (Suc 0)))))
          ((new_writeBio False (test_conn 5 []))\<lparr>wb_buf := serverMsg\<rparr>)
        = [(5, 15), (5, 10), (5, 5), (5, 0), (0, 0)]"
    by (simp add: flush_trace_step5 flush_trace_empty new_writeBio_def serverMsg_def
        del: flush_trace.simps(2))
  moreover have "length serverMsg = 20" by (simp add: serverMsg_def)
  ultimately show ?thesis
    by (simp add: go_write_bio_write_eq new_writeBio_def four five)
qed

subsection \<open>No panic leaves a callback\<close>

text \<open>
  Claim C9. A panic can arise in a callback in the calls it makes: the registry lookup,
  which all four callbacks make (the ctrl callbacks for the pending and flush commands),
  and, in the flush of \<^verbatim>\<open>go_write_bio_ctrl\<close>, the slice expression of \<^verbatim>\<open>WriteToConn\<close>.
  \<^item> Whatever panic \<open>p\<close> the lookup raises, each of the four callbacks returns \<open>-1\<close>, and
    the adapter, the flags of the I/O object and the destination are as they were.
  \<^item> When the \<^verbatim>\<open>Write\<close> of the connection reports a count that is negative or beyond
    the length of the buffer, \<^verbatim>\<open>WriteToConn\<close> panics, the flush callback returns \<open>-1\<close>,
    and the buffer is as it was.
  \<^item> With a lookup that returns, the callbacks are the functions \<open>go_write_bio_write\<close>,
    \<open>go_read_bio_read\<close>, \<open>go_write_bio_ctrl\<close> and \<open>go_read_bio_ctrl\<close>; the bodies of
    the write, read and read-ctrl callbacks, and of the write-ctrl callback for every
    command but flush, then raise no panic.
  \<^item> The ctrl commands that make no lookup return their code.
  So no panic leaves a callback, and every panic is returned as \<open>-1\<close>. The statement is
  about return codes and the state of the adapter: the model has no locks (in the source
  the panic of \<^verbatim>\<open>WriteToConn\<close> is raised between \<^verbatim>\<open>data_mtx.Lock()\<close> and its
  \<^verbatim>\<open>Unlock()\<close>, which is not deferred).
\<close>

theorem callbacks_recover:
  "go_write_bio_write_call (Some p) wreg b data sz = (- 1, wreg, b) \<and>
   go_read_bio_read_call (Some p) rreg b data sz = (- 1, rreg, b, data) \<and>
   go_write_bio_ctrl_call (Some p) wreg BIO_CTRL_WPENDING = (- 1, wreg) \<and>
   go_write_bio_ctrl_call (Some p) wreg BIO_CTRL_FLUSH = (- 1, wreg) \<and>
   go_read_bio_ctrl_call (Some p) rreg BIO_CTRL_PENDING = - 1 \<and>
   (wb_buf wb \<noteq> [] \<and>
    on_write (wb_conn wb) (length (written (wb_conn wb))) (wb_buf wb) = (n, err) \<and>
    (n < 0 \<or> int (length (wb_buf wb)) < n) \<longrightarrow>
      (\<exists>wb1. WriteToConn wb = (Inl SliceBoundsOutOfRange, wb1) \<and>
         wb_buf wb1 = wb_buf wb \<and>
         go_write_bio_ctrl_call None (Some wb) BIO_CTRL_FLUSH = (- 1, Some wb1))) \<and>
   go_write_bio_write_call None wreg b data sz = go_write_bio_write wreg b data sz \<and>
   go_read_bio_read_call None rreg b data sz = go_read_bio_read rreg b data sz \<and>
   go_write_bio_ctrl_call None wreg cmd = go_write_bio_ctrl wreg cmd \<and>
   go_read_bio_ctrl_call None rreg cmd = go_read_bio_ctrl rreg cmd \<and>
   (\<exists>rc. fst (go_write_bio_write_body wreg b data sz) = Inr rc) \<and>
   (\<exists>rc. fst (go_read_bio_read_body rreg b data sz) = Inr rc) \<and>
   (\<exists>rc. go_read_bio_ctrl_body rreg cmd = Inr rc) \<and>
   (cmd \<noteq> BIO_CTRL_FLUSH \<longrightarrow> (\<exists>rc. fst (go_write_bio_ctrl_body wreg cmd) = Inr rc)) \<and>
   go_write_bio_ctrl_call fault wreg BIO_CTRL_DUP = (1, wreg) \<and>
   go_read_bio_ctrl_call fault rreg BIO_CTRL_DUP = 1 \<and>
   go_read_bio_ctrl_call fault rreg BIO_CTRL_FLUSH = 1"
proof (intro conjI impI)
  show "go_write_bio_write_call (Some p) wreg b data sz = (- 1, wreg, b)"
    by (simp add: go_write_bio_write_call_def loadWritePtr_def recover_rc_def)
  show "go_read_bio_read_call (Some p) rreg b data sz = (- 1, rreg, b, data)"
    by (simp add: go_read_bio_read_call_def loadReadPtr_def recover_rc_def)
  show "go_write_bio_ctrl_call (Some p) wreg BIO_CTRL_WPENDING = (- 1, wreg)"
    by (simp add: go_write_bio_ctrl_call_def loadWritePtr_def recover_rc_def)
  show "go_write_bio_ctrl_call (Some p) wreg BIO_CTRL_FLUSH = (- 1, wreg)"
    by (simp add: go_write_bio_ctrl_call_def loadWritePtr_def recover_rc_def)
  show "go_read_bio_ctrl_call (Some p) rreg BIO_CTRL_PENDING = - 1"
    by (simp add: go_read_bio_ctrl_call_def loadReadPtr_def recover_rc_def)
  show "go_write_bio_write_call None wreg b data sz = go_write_bio_write wreg b data sz"
    by (simp add: go_write_bio_write_call_def loadWritePtr_def go_write_bio_write_def)
  show "go_read_bio_read_call None rreg b data sz = go_read_bio_read rreg b data sz"
    by (simp add: go_read_bio_read_call_def loadReadPtr_def go_read_bio_read_def)
  show "go_write_bio_ctrl_call None wreg cmd = go_write_bio_ctrl wreg cmd"
    by (simp add: go_write_bio_ctrl_call_def loadWritePtr_def go_write_bio_ctrl_def)
  show "go_read_bio_ctrl_call None rreg cmd = go_read_bio_ctrl rreg cmd"
    by (simp add: go_read_bio_ctrl_call_def loadReadPtr_def go_read_bio_ctrl_def)
  show "\<exists>rc. fst (go_write_bio_write_body wreg b data sz) = Inr rc"
    by (simp add: go_write_bio_write_body_def Let_def)
  show "\<exists>rc. fst (go_read_bio_read_body rreg b data sz) = Inr rc"
    by (simp add: go_read_bio_read_body_def Let_def split: prod.splits)
  show "\<exists>rc. go_read_bio_ctrl_body rreg cmd = Inr rc"
    by (cases cmd) (simp_all add: go_read_bio_ctrl_body_def)
  show "go_write_bio_ctrl_call fault wreg BIO_CTRL_DUP = (1, wreg)"
    by (simp add: go_write_bio_ctrl_call_def go_write_bio_ctrl_body_def recover_rc_def)
  show "go_read_bio_ctrl_call fault rreg BIO_CTRL_DUP = 1"
    by (simp add: go_read_bio_ctrl_call_def go_read_bio_ctrl_body_def recover_rc_def)
  show "go_read_bio_ctrl_call fault rreg BIO_CTRL_FLUSH = 1"
    by (simp add: go_read_bio_ctrl_call_def go_read_bio_ctrl_body_def recover_rc_def)
next
  assume a: "wb_buf wb \<noteq> [] \<and>
    on_write (wb_conn wb) (length (written (wb_conn wb))) (wb_buf wb) = (n, err) \<and>
    (n < 0 \<or> int (length (wb_buf wb)) < n)"
  then have "WriteToConn wb =
           (Inl SliceBoundsOutOfRange,
            wb\<lparr>wb_conn := (wb_conn wb)\<lparr>written :=
                 written (wb_conn wb) @ [take (nat n) (wb_buf wb)]\<rparr>\<rparr>)"
    by (intro WriteToConn_overreport) auto
  then show "\<exists>wb1. WriteToConn wb = (Inl SliceBoundsOutOfRange, wb1) \<and>
         wb_buf wb1 = wb_buf wb \<and>
         go_write_bio_ctrl_call None (Some wb) BIO_CTRL_FLUSH = (- 1, Some wb1)"
    by (simp add: go_write_bio_ctrl_call_def loadWritePtr_def go_write_bio_ctrl_body_def
        writeBioFlush_def recover_rc_def)
next
  assume "cmd \<noteq> BIO_CTRL_FLUSH"
  then show "\<exists>rc. fst (go_write_bio_ctrl_body wreg cmd) = Inr rc"
    by (cases cmd) (simp_all add: go_write_bio_ctrl_body_def)
qed

theorem callbacks_recover_witness:
  "go_write_bio_write_call (Some (PanicValue ''lookup'')) (Some (new_writeBio False (test_conn 5 [])))
       {BIO_FLAGS_WRITE} (Some ''abc'') 3 =
     (- 1, Some (new_writeBio False (test_conn 5 [])), {BIO_FLAGS_WRITE}) \<and>
   go_write_bio_write_call None (Some (new_writeBio False (test_conn 5 [])))
       {BIO_FLAGS_WRITE} (Some ''abc'') 3 =
     (3, Some ((new_writeBio False (test_conn 5 []))\<lparr>wb_buf := ''abc''\<rparr>), {}) \<and>
   go_read_bio_read_call (Some (PanicValue ''lookup'')) (Some (new_readBio False (test_conn 5 [])))
       {BIO_FLAGS_WRITE} (Some ''abc'') 3 =
     (- 1, Some (new_readBio False (test_conn 5 [])), {BIO_FLAGS_WRITE}, Some ''abc'') \<and>
   go_read_bio_ctrl_call (Some (PanicValue ''lookup'')) (Some (new_readBio False (test_conn 5 [])))
       BIO_CTRL_PENDING = - 1 \<and>
   go_write_bio_ctrl_call (Some (PanicValue ''lookup'')) (Some (new_writeBio False (test_conn 5 [])))
       BIO_CTRL_WPENDING = (- 1, Some (new_writeBio False (test_conn 5 []))) \<and>
   WriteToConn ((new_writeBio False overreporting_conn)\<lparr>wb_buf := ''abc''\<rparr>) =
     (Inl SliceBoundsOutOfRange,
      \<lparr>wb_buf = ''abc'', wb_release_buffers = False,
       wb_conn = overreporting_conn\<lparr>written := [''abc'']\<rparr>\<rparr>) \<and>
   go_write_bio_ctrl_call None (Some ((new_writeBio False overreporting_conn)\<lparr>wb_buf := ''abc''\<rparr>))
       BIO_CTRL_FLUSH =
     (- 1, Some \<lparr>wb_buf = ''abc'', wb_release_buffers = False,
                 wb_conn = overreporting_conn\<lparr>written := [''abc'']\<rparr>\<rparr>)"
proof -
  let ?wb = "(new_writeBio False overreporting_conn)\<lparr>wb_buf := ''abc''\<rparr>"
  let ?W = "Some (new_writeBio False (test_conn 5 []))"
  let ?R = "Some (new_readBio False (test_conn 5 []))"
  have w: "WriteToConn ?wb =
     (Inl SliceBoundsOutOfRange,
      \<lparr>wb_buf = ''abc'', wb_release_buffers = False,
       wb_conn = overreporting_conn\<lparr>written := [''abc'']\<rparr>\<rparr>)"
    by (simp add: WriteToConn_def conn_Write_def new_writeBio_def overreporting_conn_def Let_def)
  have h: "wb_buf ?wb \<noteq> [] \<and>
    on_write (wb_conn ?wb) (length (written (wb_conn ?wb))) (wb_buf ?wb) = (4, None) \<and>
    ((4::int) < 0 \<or> int (length (wb_buf ?wb)) < 4)"
    by (simp add: new_writeBio_def overreporting_conn_def)
  note t = callbacks_recover [where wb = ?wb and n = 4 and err = None
      and p = "PanicValue ''lookup''" and wreg = ?W
      and b = "{BIO_FLAGS_WRITE}" and data = "Some ''abc''" and sz = 3
      and rreg = ?R and cmd = BIO_CTRL_DUP and fault = None]
  from t have 1: "go_write_bio_write_call (Some (PanicValue ''lookup'')) ?W
       {BIO_FLAGS_WRITE} (Some ''abc'') 3 = (- 1, ?W, {BIO_FLAGS_WRITE})"
    by blast
  from t have e: "go_write_bio_write_call None ?W {BIO_FLAGS_WRITE} (Some ''abc'') 3 =
                    go_write_bio_write ?W {BIO_FLAGS_WRITE} (Some ''abc'') 3"
    by blast
  have 2: "go_write_bio_write_call None ?W {BIO_FLAGS_WRITE} (Some ''abc'') 3 =
     (3, Some ((new_writeBio False (test_conn 5 []))\<lparr>wb_buf := ''abc''\<rparr>), {})"
    unfolding e
    by (simp add: go_write_bio_write_eq bioClearRetryFlags_def X_BIO_clear_flags_def
        BIO_FLAGS_RWS_def new_writeBio_def)
  from t have 3: "go_read_bio_read_call (Some (PanicValue ''lookup'')) ?R
       {BIO_FLAGS_WRITE} (Some ''abc'') 3 = (- 1, ?R, {BIO_FLAGS_WRITE}, Some ''abc'')"
    by blast
  from t have 4: "go_read_bio_ctrl_call (Some (PanicValue ''lookup'')) ?R BIO_CTRL_PENDING = - 1"
    by blast
  from t have 5: "go_write_bio_ctrl_call (Some (PanicValue ''lookup'')) ?W BIO_CTRL_WPENDING
                    = (- 1, ?W)"
    by blast
  from t h obtain wb1 where
    f: "WriteToConn ?wb = (Inl SliceBoundsOutOfRange, wb1)"
       "go_write_bio_ctrl_call None (Some ?wb) BIO_CTRL_FLUSH = (- 1, Some wb1)"
    by blast
  from f w have 6: "go_write_bio_ctrl_call None (Some ?wb) BIO_CTRL_FLUSH =
     (- 1, Some \<lparr>wb_buf = ''abc'', wb_release_buffers = False,
                 wb_conn = overreporting_conn\<lparr>written := [''abc'']\<rparr>\<rparr>)"
    by simp
  from 1 2 3 4 5 w 6 show ?thesis by blast
qed

subsection \<open>A read request with no destination\<close>

text \<open>
  Claim C10, as amended. When the buffer of the read adapter is not empty and the foreign
  read call passes a null destination pointer or a size of zero (the size not negative), the
  call returns the number of buffered bytes converted to the C type \<^verbatim>\<open>int\<close>, which is that
  number whenever it is below \<open>2^31\<close>, clears the retry flags, and leaves the adapter and
  the destination as they were: no byte is consumed.
\<close>

theorem read_null_or_zero_size:
  assumes "rb_buf rb \<noteq> []" and "0 \<le> sz" and "sz = 0 \<or> data = None"
  shows "go_read_bio_read (Some rb) b data sz =
           (C_int (int (length (rb_buf rb))), Some rb, bioClearRetryFlags b, data) \<and>
         (length (rb_buf rb) < 2147483648 \<longrightarrow>
            C_int (int (length (rb_buf rb))) = int (length (rb_buf rb)))"
  using assms
  by (auto simp: go_read_bio_read_def go_read_bio_read_body_def recover_rc_def Let_def C_int_id)

theorem read_null_or_zero_size_witness:
  "go_read_bio_read (Some ((new_readBio False (test_conn 5 []))\<lparr>rb_buf := ''abc''\<rparr>)) {} None 7 =
     (3, Some ((new_readBio False (test_conn 5 []))\<lparr>rb_buf := ''abc''\<rparr>), {}, None)"
  using read_null_or_zero_size
    [of "(new_readBio False (test_conn 5 []))\<lparr>rb_buf := ''abc''\<rparr>" 7 None "{}"]
  by (simp add: new_readBio_def bioClearRetryFlags_def X_BIO_clear_flags_def)

text \<open>The claim as written has the call return the number of buffered bytes whatever it
  is. With \<open>2^31\<close> bytes buffered the conversion to \<^verbatim>\<open>C.int\<close> wraps around and the call
  returns \<open>-2^31\<close>.\<close>

theorem read_null_huge_counterexample:
  "fst (go_read_bio_read
          (Some ((new_readBio False (test_conn 5 []))
                   \<lparr>rb_buf := replicate 2147483648 (CHR 0x00)\<rparr>))
          {} None 0) = - 2147483648 \<and>
   int (length (rb_buf ((new_readBio False (test_conn 5 []))
                          \<lparr>rb_buf := replicate 2147483648 (CHR 0x00)\<rparr>))) = 2147483648"
  by (simp add: go_read_bio_read_def go_read_bio_read_body_def recover_rc_def Let_def C_int_def
      new_readBio_def)

end
